theory Spec2Isabelle
  imports Complex_Main "HOL-Library.Multiset"
begin

section \<open>The grid module (src/utils/grid.ts)\<close>

text \<open>
  The module packs rectangular items on an integer grid. Its functions are embedded
  one by one, in the order of the source.

  Numbers. The source's \<open>number\<close> fields are embedded after the data they hold:
  \<open>columns\<close> and \<open>rows\<close> are array lengths (they are passed to \<open>Array(n)\<close>) and are
  natural numbers; the cell coordinates \<open>x\<close>, \<open>y\<close> and the extents \<open>width\<close>,
  \<open>height\<close> are integers of any sign. \<open>boxSize\<close> is a pixel size; the functions embedded
  here carry it along and never compute with it. \<open>snapToSector\<close>, whose ranking is
  decided by the rounding of double-precision arithmetic and of \<open>Math.hypot\<close>, is not
  embedded.

  Errors. A \<open>throw\<close> is a value: \<open>OverlapError\<close> is the
  \<open>Error('elements in layout have overlay')\<close> of \<open>layoutTo2DArray\<close>, and
  \<open>TypeError\<close> is what JavaScript raises when a property of \<open>undefined\<close> is read,
  which happens when the outer array is indexed outside its range and the result is
  indexed again.
\<close>

datatype error = TypeError | OverlapError

record GridDimensions =
  boxSize :: real
  columns :: nat
  rows :: nat
  minColumns :: nat
  minRows :: nat

record Position =
  x :: int
  y :: int

text \<open>
  \<open>LayoutItem<T> = Position & LayoutItemSize & T\<close>: the caller's data \<open>T\<close> is the
  field \<open>payload\<close>.
\<close>

record 'a LayoutItem = Position +
  width :: int
  height :: int
  payload :: 'a

subsection \<open>JavaScript arrays of booleans\<close>

text \<open>
  A row of the occupancy matrix is a JavaScript array: an object with a \<open>length\<close> and
  properties. Reading a key that was never written gives \<open>undefined\<close> (here \<open>None\<close>);
  writing a key that is not an array index (a negative integer) adds a property and
  leaves the length alone; writing an index at or beyond the length extends the array.
  \<open>undefined\<close> and \<open>false\<close> are falsy, \<open>true\<close> is truthy.
\<close>

record Row =
  rlength :: nat
  relems :: "int \<Rightarrow> bool option"

type_synonym Grid2DArray = "Row list"

definition newRow :: "nat \<Rightarrow> Row" where
  \<comment> \<open>\<open>[...Array(n)].map(() => false)\<close>\<close>
  "newRow n = \<lparr>rlength = n, relems = (\<lambda>k. if 0 \<le> k \<and> k < int n then Some False else None)\<rparr>"

definition truthy :: "bool option \<Rightarrow> bool" where
  "truthy v = (v = Some True)"

definition setTrue :: "Row \<Rightarrow> int \<Rightarrow> Row" where
  \<comment> \<open>\<open>row[k] = true\<close>\<close>
  "setTrue r k =
     \<lparr>rlength = (if 0 \<le> k then max (rlength r) (nat k + 1) else rlength r),
      relems = (relems r)(k := Some True)\<rparr>"

definition rowAt :: "Grid2DArray \<Rightarrow> int \<Rightarrow> Row option" where
  \<comment> \<open>\<open>arr[k]\<close>: \<open>undefined\<close> outside the index range\<close>
  "rowAt arr k = (if 0 \<le> k \<and> k < int (length arr) then Some (arr ! nat k) else None)"

subsection \<open>layoutItemToSectors\<close>

definition layoutItemToSectors :: "'a LayoutItem \<Rightarrow> Position list" where
  "layoutItemToSectors item =
     concat (map (\<lambda>i. map (\<lambda>j. \<lparr>x = i, y = j\<rparr>) [y item..y item + height item - 1])
                 [x item..x item + width item - 1])"

subsection \<open>layoutTo2DArray\<close>

text \<open>The body of the \<open>forEach\<close> callback, for one sector \<open>s\<close>.\<close>

definition markSector ::
  "GridDimensions \<Rightarrow> bool \<Rightarrow> Grid2DArray \<Rightarrow> Position \<Rightarrow> error + Grid2DArray" where
  "markSector grid allowOverlay arr s =
     (if x s \<ge> int (columns grid) \<or> y s \<ge> int (rows grid) then Inr arr
      else case rowAt arr (y s) of
             None \<Rightarrow> Inl TypeError
           | Some r \<Rightarrow>
               if truthy (relems r (x s)) \<and> \<not> allowOverlay then Inl OverlapError
               else Inr (arr[nat (y s) := setTrue r (x s)]))"

fun forEachSector ::
  "GridDimensions \<Rightarrow> bool \<Rightarrow> Grid2DArray \<Rightarrow> Position list \<Rightarrow> error + Grid2DArray" where
  "forEachSector grid allowOverlay arr [] = Inr arr"
| "forEachSector grid allowOverlay arr (s # ss) =
     (case markSector grid allowOverlay arr s of
        Inl e \<Rightarrow> Inl e
      | Inr arr' \<Rightarrow> forEachSector grid allowOverlay arr' ss)"

fun forItems ::
  "GridDimensions \<Rightarrow> bool \<Rightarrow> Grid2DArray \<Rightarrow> 'a LayoutItem list \<Rightarrow> error + Grid2DArray" where
  "forItems grid allowOverlay arr [] = Inr arr"
| "forItems grid allowOverlay arr (item # rest) =
     (case forEachSector grid allowOverlay arr (layoutItemToSectors item) of
        Inl e \<Rightarrow> Inl e
      | Inr arr' \<Rightarrow> forItems grid allowOverlay arr' rest)"

definition layoutTo2DArray ::
  "GridDimensions \<Rightarrow> 'a LayoutItem list \<Rightarrow> bool \<Rightarrow> error + Grid2DArray" where
  "layoutTo2DArray grid layout allowOverlay =
     forItems grid allowOverlay (replicate (rows grid) (newRow (columns grid))) layout"

subsection \<open>willItemOverlay\<close>

fun overlayLoop :: "Grid2DArray \<Rightarrow> Position list \<Rightarrow> error + bool" where
  "overlayLoop arr [] = Inr False"
| "overlayLoop arr (sector # rest) =
     (if int (length arr) \<le> y sector then overlayLoop arr rest
      else case rowAt arr (y sector) of
             None \<Rightarrow> Inl TypeError
           | Some r \<Rightarrow>
               if int (rlength r) \<le> x sector then overlayLoop arr rest
               else if truthy (relems r (x sector)) then Inr True
               else overlayLoop arr rest)"

definition willItemOverlay :: "Grid2DArray \<Rightarrow> 'a LayoutItem \<Rightarrow> error + bool" where
  "willItemOverlay arr item = overlayLoop arr (layoutItemToSectors item)"

subsection \<open>findPositionForItemInGrid\<close>

text \<open>
  The inner loop over the columns \<open>j\<close> of row \<open>i\<close> and the outer loop over the rows.
  \<open>None\<close> is the source's \<open>false\<close> (no position found).
\<close>

fun scanRow ::
  "GridDimensions \<Rightarrow> Grid2DArray \<Rightarrow> 'a LayoutItem \<Rightarrow> nat \<Rightarrow> Row \<Rightarrow> nat list
     \<Rightarrow> error + Position option" where
  "scanRow grid arr item i row [] = Inr None"
| "scanRow grid arr item i row (j # js) =
     (if truthy (relems row (int j)) then scanRow grid arr item i row js
      else case willItemOverlay arr (item\<lparr>x := int j, y := int i\<rparr>) of
             Inl e \<Rightarrow> Inl e
           | Inr overlay \<Rightarrow>
               let overflow = (int j + width item > int (columns grid))
                                \<or> (int i + height item > int (rows grid))
               in if overlay \<or> overflow then scanRow grid arr item i row js
                  else Inr (Some \<lparr>x = int j, y = int i\<rparr>))"

fun scanRows ::
  "GridDimensions \<Rightarrow> Grid2DArray \<Rightarrow> 'a LayoutItem \<Rightarrow> nat list \<Rightarrow> error + Position option" where
  "scanRows grid arr item [] = Inr None"
| "scanRows grid arr item (i # is) =
     (case scanRow grid arr item i (arr ! i) [0..<rlength (arr ! i)] of
        Inl e \<Rightarrow> Inl e
      | Inr (Some p) \<Rightarrow> Inr (Some p)
      | Inr None \<Rightarrow> scanRows grid arr item is)"

definition findPositionForItemInGrid ::
  "GridDimensions \<Rightarrow> 'a LayoutItem list \<Rightarrow> 'a LayoutItem \<Rightarrow> error + Position option" where
  "findPositionForItemInGrid grid layout item =
     (case layoutTo2DArray grid layout False of
        Inl e \<Rightarrow> Inl e
      | Inr arr \<Rightarrow> scanRows grid arr item [0..<length arr])"

subsection \<open>fixHorizontalOverflows\<close>

text \<open>
  \<open>fixHorizontalOverflows\<close> compares items by reference (\<open>i !== item\<close>) and updates an
  array in place (\<open>push\<close>), so it is embedded over a store. An item is an immutable
  object, addressed by its index in \<open>objects\<close>; a layout is an array of item
  references, addressed by its index in \<open>arrays\<close>. Allocation appends to the store, so
  that a new object or array has an address no earlier one has.
\<close>

record 'a store =
  objects :: "'a LayoutItem list"
  arrays :: "nat list list"

definition itemsOf :: "'a store \<Rightarrow> nat \<Rightarrow> 'a LayoutItem list" where
  \<comment> \<open>the items an array holds, by value\<close>
  "itemsOf h a = map (\<lambda>r. objects h ! r) (arrays h ! a)"

definition spreadArray :: "'a store \<Rightarrow> nat \<Rightarrow> 'a store \<times> nat" where
  \<comment> \<open>\<open>[...a]\<close>: a new array with the elements of \<open>a\<close>\<close>
  "spreadArray h a = (h\<lparr>arrays := arrays h @ [arrays h ! a]\<rparr>, length (arrays h))"

definition filterOthers :: "'a store \<Rightarrow> nat \<Rightarrow> nat \<Rightarrow> 'a store \<times> nat" where
  \<comment> \<open>\<open>a.filter(i => i !== item)\<close>: a new array without the references to \<open>item\<close>\<close>
  "filterOthers h a item =
     (h\<lparr>arrays := arrays h @ [filter (\<lambda>i. i \<noteq> item) (arrays h ! a)]\<rparr>, length (arrays h))"

definition pushNew :: "'a store \<Rightarrow> nat \<Rightarrow> 'a LayoutItem \<Rightarrow> 'a store" where
  \<comment> \<open>\<open>a.push({...})\<close>: a new object, and its reference appended to \<open>a\<close> in place\<close>
  "pushNew h a v =
     h\<lparr>objects := objects h @ [v],
       arrays := (arrays h)[a := arrays h ! a @ [length (objects h)]]\<rparr>"

definition overflows :: "GridDimensions \<Rightarrow> 'a LayoutItem \<Rightarrow> bool" where
  "overflows grid item =
     ((x item + width item > int (columns grid)) \<or> (y item + height item > int (rows grid)))"

text \<open>
  The \<open>for (const item of layout)\<close> loop: the array iterator reads \<open>layout[k]\<close> and
  compares \<open>k\<close> with the current length of \<open>layout\<close> at every step. \<open>None\<close> is a loop
  that does not end. The result is the store with the returned array or, when the
  search throws, the error with the store as it is then.
\<close>

partial_function (option) fixLoop ::
  "GridDimensions \<Rightarrow> 'a store \<Rightarrow> nat \<Rightarrow> nat \<Rightarrow> nat
     \<Rightarrow> (error \<times> 'a store + 'a store \<times> nat) option" where
  "fixLoop grid h layout newLayout k =
     (if k < length (arrays h ! layout) then
        (let item = arrays h ! layout ! k;
             overflow = overflows grid (objects h ! item)
         in if \<not> overflow then fixLoop grid h layout newLayout (Suc k)
            else
              (let (h1, newLayout1) = filterOthers h newLayout item
               in case findPositionForItemInGrid grid (itemsOf h1 newLayout1) (objects h1 ! item) of
                    Inl e \<Rightarrow> Some (Inl (e, h1))
                  | Inr None \<Rightarrow> fixLoop grid h1 layout newLayout1 (Suc k)
                  | Inr (Some pos) \<Rightarrow>
                      fixLoop grid
                        (pushNew h1 newLayout1
                           ((objects h1 ! item)\<lparr>x := x pos, y := y pos\<rparr>))
                        layout newLayout1 (Suc k)))
      else Some (Inr (h, newLayout)))"

declare fixLoop.simps [code]

definition fixHorizontalOverflows ::
  "GridDimensions \<Rightarrow> 'a store \<Rightarrow> nat \<Rightarrow> (error \<times> 'a store + 'a store \<times> nat) option" where
  "fixHorizontalOverflows grid h layout =
     (let (h0, newLayout) = spreadArray h layout in fixLoop grid h0 layout newLayout 0)"

subsection \<open>Overflow repair, as the specification words it\<close>

text \<open>
  Section 4.6 of the specification: a working copy; for each overflowing item, in the
  original order, remove it from the working copy, search a slot against the current
  working copy and, if one is found, put the item with the new coordinates at the end
  of the working copy. An entry of the working copy is an item with its identity (the
  key under which it is removed); \<open>n\<close> is the first key that no entry has yet.
\<close>

fun repairLoop ::
  "GridDimensions \<Rightarrow> nat \<Rightarrow> (nat \<times> 'a LayoutItem) list \<Rightarrow> (nat \<times> 'a LayoutItem) list
     \<Rightarrow> error + (nat \<times> 'a LayoutItem) list" where
  "repairLoop grid n working [] = Inr working"
| "repairLoop grid n working ((k, item) # rest) =
     (if \<not> overflows grid item then repairLoop grid n working rest
      else let working' = filter (\<lambda>e. fst e \<noteq> k) working
           in case findPositionForItemInGrid grid (map snd working') item of
                Inl e \<Rightarrow> Inl e
              | Inr None \<Rightarrow> repairLoop grid n working' rest
              | Inr (Some p) \<Rightarrow>
                  repairLoop grid (Suc n) (working' @ [(n, item\<lparr>x := x p, y := y p\<rparr>)]) rest)"

definition repairOverflow ::
  "GridDimensions \<Rightarrow> nat \<Rightarrow> (nat \<times> 'a LayoutItem) list \<Rightarrow> error + (nat \<times> 'a LayoutItem) list" where
  "repairOverflow grid n layout = repairLoop grid n layout layout"

definition entries :: "'a store \<Rightarrow> nat \<Rightarrow> (nat \<times> 'a LayoutItem) list" where
  \<comment> \<open>the elements of an array: each reference with the item it points to\<close>
  "entries h a = map (\<lambda>r. (r, objects h ! r)) (arrays h ! a)"

definition validStore :: "'a store \<Rightarrow> nat \<Rightarrow> nat \<Rightarrow> bool" where
  \<comment> \<open>\<open>layout\<close> and \<open>newLayout\<close> are two different arrays of the store, and their
      elements are objects of the store\<close>
  "validStore h layout newLayout =
     (layout < length (arrays h) \<and> newLayout < length (arrays h) \<and> newLayout \<noteq> layout
      \<and> (\<forall>r \<in> set (arrays h ! layout). r < length (objects h))
      \<and> (\<forall>r \<in> set (arrays h ! newLayout). r < length (objects h)))"

definition unchanged :: "'a store \<Rightarrow> 'a store \<Rightarrow> bool" where
  \<comment> \<open>every array and every object of the store \<open>h\<close> is in \<open>h'\<close> as it was\<close>
  "unchanged h h' =
     (length (arrays h) \<le> length (arrays h')
      \<and> (\<forall>a<length (arrays h). arrays h' ! a = arrays h ! a)
      \<and> take (length (objects h)) (objects h') = objects h)"

definition copyOf :: "GridDimensions \<Rightarrow> 'a LayoutItem \<Rightarrow> 'a LayoutItem \<Rightarrow> bool" where
  \<comment> \<open>\<open>v\<close> is the overflowing item \<open>v0\<close> moved into the grid: same size and payload\<close>
  "copyOf grid v v0 =
     (overflows grid v0 \<and> \<not> overflows grid v
      \<and> width v = width v0 \<and> height v = height v0 \<and> payload v = payload v0)"

subsection \<open>Predicates of the statements\<close>

definition occupied :: "Grid2DArray \<Rightarrow> Position \<Rightarrow> bool" where
  \<comment> \<open>the cell \<open>arr[y][x]\<close> exists and is truthy\<close>
  "occupied arr s = (case rowAt arr (y s) of None \<Rightarrow> False | Some r \<Rightarrow> truthy (relems r (x s)))"

definition hasDimensions :: "GridDimensions \<Rightarrow> Grid2DArray \<Rightarrow> bool" where
  "hasDimensions grid arr =
     (length arr = rows grid \<and> list_all (\<lambda>r. rlength r = columns grid) arr)"

definition inGrid :: "GridDimensions \<Rightarrow> Position \<Rightarrow> bool" where
  "inGrid grid s = (0 \<le> x s \<and> x s < int (columns grid) \<and> 0 \<le> y s \<and> y s < int (rows grid))"

definition marked :: "GridDimensions \<Rightarrow> Position \<Rightarrow> bool" where
  \<comment> \<open>the sector passes the guard of \<open>layoutTo2DArray\<close> and is written\<close>
  "marked grid s = (\<not> (x s \<ge> int (columns grid) \<or> y s \<ge> int (rows grid)))"

definition clipItem :: "GridDimensions \<Rightarrow> 'a LayoutItem \<Rightarrow> 'a LayoutItem" where
  \<comment> \<open>the part of an item that does not exceed the extent of the grid\<close>
  "clipItem grid item =
     item\<lparr>width := min (x item + width item) (int (columns grid)) - x item,
          height := min (y item + height item) (int (rows grid)) - y item\<rparr>"

definition withinBounds :: "Grid2DArray \<Rightarrow> Position \<Rightarrow> bool" where
  \<comment> \<open>\<open>arr[y][x]\<close> is an element of the matrix\<close>
  "withinBounds arr s =
     (0 \<le> y s \<and> y s < int (length arr) \<and> 0 \<le> x s \<and> x s < int (rlength (arr ! nat (y s))))"


definition acceptable ::
  "GridDimensions \<Rightarrow> Grid2DArray \<Rightarrow> 'a LayoutItem \<Rightarrow> nat \<Rightarrow> nat \<Rightarrow> bool" where
  \<comment> \<open>the three tests of the loop body of \<open>findPositionForItemInGrid\<close> at the origin
      (column \<open>j\<close>, row \<open>i\<close>): none of them makes the loop \<open>continue\<close>\<close>
  "acceptable grid arr item i j =
     (\<not> truthy (relems (arr ! i) (int j))
      \<and> willItemOverlay arr (item\<lparr>x := int j, y := int i\<rparr>) = Inr False
      \<and> \<not> (int j + width item > int (columns grid) \<or> int i + height item > int (rows grid)))"

definition validOrigin ::
  "GridDimensions \<Rightarrow> Grid2DArray \<Rightarrow> 'a LayoutItem \<Rightarrow> nat \<Rightarrow> nat \<Rightarrow> bool" where
  \<comment> \<open>the item placed at column \<open>j\<close>, row \<open>i\<close> is within the grid and meets no occupied
      cell\<close>
  "validOrigin grid arr item j i =
     (int j + width item \<le> int (columns grid) \<and> int i + height item \<le> int (rows grid)
      \<and> (\<forall>s \<in> set (layoutItemToSectors (item\<lparr>x := int j, y := int i\<rparr>)). \<not> occupied arr s))"

definition placeable ::
  "GridDimensions \<Rightarrow> Grid2DArray \<Rightarrow> 'a LayoutItem \<Rightarrow> nat \<Rightarrow> nat \<Rightarrow> bool" where
  \<comment> \<open>the cell at column \<open>j\<close>, row \<open>i\<close> is unoccupied and the item placed there is
      within the grid and meets no occupied cell\<close>
  "placeable grid arr item j i =
     (\<not> occupied arr \<lparr>x = int j, y = int i\<rparr> \<and> validOrigin grid arr item j i)"

subsection \<open>Examples\<close>

text \<open>Grids, items without payload and a store, for the concrete cases below.\<close>

definition grid2 :: GridDimensions where
  "grid2 = \<lparr>boxSize = 10, columns = 2, rows = 2, minColumns = 2, minRows = 2\<rparr>"

definition grid3 :: GridDimensions where
  "grid3 = \<lparr>boxSize = 10, columns = 3, rows = 3, minColumns = 3, minRows = 3\<rparr>"

definition grid4 :: GridDimensions where
  "grid4 = \<lparr>boxSize = 10, columns = 4, rows = 4, minColumns = 4, minRows = 4\<rparr>"

definition mkItem :: "int \<Rightarrow> int \<Rightarrow> int \<Rightarrow> int \<Rightarrow> unit LayoutItem" where
  "mkItem a b w h = \<lparr>x = a, y = b, width = w, height = h, payload = ()\<rparr>"

definition store1 :: "unit store" where
  \<comment> \<open>a store with one layout, array 0: a 2x2 item at the origin and a 1x1 item at (3, 3)\<close>
  "store1 = \<lparr>objects = [mkItem 0 0 2 2, mkItem 3 3 1 1], arrays = [[0, 1]]\<rparr>"

definition store2 :: "unit store" where
  \<comment> \<open>a store with one layout, array 0: two 2x2 items, at the origin and at (1, 1)\<close>
  "store2 = \<lparr>objects = [mkItem 0 0 2 2, mkItem 1 1 2 2], arrays = [[0, 1]]\<rparr>"

section \<open>Occupancy construction keeps the dimensions\<close>

lemma setTrue_rlength:
  "k < int (rlength r) \<Longrightarrow> rlength (setTrue r k) = rlength r"
  by (auto simp: setTrue_def max_def)

lemma rowAt_Some:
  "rowAt arr k = Some r \<Longrightarrow> 0 \<le> k \<and> nat k < length arr \<and> r = arr ! nat k"
  by (auto simp: rowAt_def split: if_splits)

lemma markSector_hasDimensions:
  assumes "markSector grid allow arr s = Inr arr'" and "hasDimensions grid arr"
  shows "hasDimensions grid arr'"
proof (cases "x s \<ge> int (columns grid) \<or> y s \<ge> int (rows grid)")
  case True
  with assms show ?thesis by (simp add: markSector_def)
next
  case False
  with assms obtain r where r: "rowAt arr (y s) = Some r"
    and arr': "arr' = arr[nat (y s) := setTrue r (x s)]"
    by (auto simp: markSector_def split: option.splits if_splits)
  from rowAt_Some[OF r] have "r \<in> set arr" by auto
  with assms(2) have "rlength r = columns grid"
    by (simp add: hasDimensions_def list_all_iff)
  with False have "rlength (setTrue r (x s)) = columns grid"
    by (simp add: setTrue_rlength)
  with assms(2) show ?thesis
    unfolding arr' hasDimensions_def list_all_iff
    by (auto dest!: set_update_subset_insert[THEN subsetD])
qed

lemma forEachSector_hasDimensions:
  "forEachSector grid allow arr ss = Inr arr' \<Longrightarrow> hasDimensions grid arr
     \<Longrightarrow> hasDimensions grid arr'"
  by (induction ss arbitrary: arr)
     (auto split: sum.splits dest: markSector_hasDimensions)

lemma forItems_hasDimensions:
  "forItems grid allow arr layout = Inr arr' \<Longrightarrow> hasDimensions grid arr
     \<Longrightarrow> hasDimensions grid arr'"
  by (induction layout arbitrary: arr)
     (auto split: sum.splits dest: forEachSector_hasDimensions)

lemma hasDimensions_initial:
  "hasDimensions grid (replicate (rows grid) (newRow (columns grid)))"
  by (simp add: hasDimensions_def list_all_iff newRow_def)

lemma layoutTo2DArray_hasDimensions:
  "layoutTo2DArray grid layout allow = Inr arr \<Longrightarrow> hasDimensions grid arr"
  using forItems_hasDimensions[OF _ hasDimensions_initial]
  by (simp add: layoutTo2DArray_def)

text \<open>
  C9. Whenever \<open>layoutTo2DArray\<close> returns a matrix, the matrix has exactly
  \<open>rows\<close> rows and each row has length \<open>columns\<close>, whatever the layout holds and
  whether or not overlaps are allowed.
\<close>

theorem layoutTo2DArray_dimensions:
  "layoutTo2DArray grid layout allowOverlay = Inr arr \<Longrightarrow>
     length arr = rows grid \<and> list_all (\<lambda>r. rlength r = columns grid) arr"
  using layoutTo2DArray_hasDimensions[of grid layout allowOverlay arr]
  by (simp add: hasDimensions_def)

lemmas eval_simps =
  layoutTo2DArray_def layoutItemToSectors_def markSector_def rowAt_def truthy_def
  newRow_def setTrue_def upto.simps willItemOverlay_def findPositionForItemInGrid_def

theorem layoutTo2DArray_dimensions_witness:
  "\<exists>arr. layoutTo2DArray grid3 [mkItem 0 0 2 2] False = Inr arr
     \<and> length arr = 3 \<and> list_all (\<lambda>r. rlength r = 3) arr"
proof -
  obtain arr where a: "layoutTo2DArray grid3 [mkItem 0 0 2 2] False = Inr arr"
    by (simp add: grid3_def mkItem_def eval_simps)
  from layoutTo2DArray_dimensions[OF a] a show ?thesis by (simp add: grid3_def)
qed

section \<open>Which cells are occupied\<close>

lemma occupied_update:
  assumes "rowAt arr k = Some r"
  shows "occupied (arr[nat k := setTrue r j]) c
           = (occupied arr c \<or> (y c = k \<and> x c = j))"
proof -
  from rowAt_Some[OF assms] have k: "0 \<le> k" "nat k < length arr" "r = arr ! nat k" by auto
  show ?thesis
  proof (cases "y c = k")
    case True
    with k show ?thesis
      by (auto simp: occupied_def rowAt_def setTrue_def truthy_def)
  next
    case False
    with k show ?thesis
      by (auto simp: occupied_def rowAt_def nat_eq_iff split: option.splits)
  qed
qed

lemma markSector_occupied:
  assumes "markSector grid allow arr s = Inr arr'"
  shows "occupied arr' c = (occupied arr c \<or> (marked grid s \<and> y c = y s \<and> x c = x s))"
proof (cases "marked grid s")
  case False
  with assms show ?thesis by (auto simp: markSector_def marked_def)
next
  case True
  with assms obtain r where r: "rowAt arr (y s) = Some r"
    and arr': "arr' = arr[nat (y s) := setTrue r (x s)]"
    by (auto simp: markSector_def marked_def split: option.splits if_splits)
  show ?thesis unfolding arr' occupied_update[OF r] using True by simp
qed

lemma markSector_fresh:
  assumes "markSector grid False arr s = Inr arr'" and "marked grid s"
  shows "\<not> occupied arr s"
  using assms
  by (auto simp: markSector_def marked_def occupied_def split: option.splits if_splits)

lemma markSector_length:
  "markSector grid allow arr s = Inr arr' \<Longrightarrow> length arr' = length arr"
  by (auto simp: markSector_def split: option.splits if_splits)

lemma markSector_cases:
  assumes "length arr = rows grid" and "0 \<le> y s"
  shows "markSector grid allow arr s =
           (if \<not> allow \<and> marked grid s \<and> occupied arr s then Inl OverlapError
            else Inr (if marked grid s then arr[nat (y s) := setTrue (arr ! nat (y s)) (x s)] else arr))"
  using assms
  by (auto simp: markSector_def marked_def occupied_def rowAt_def split: option.splits)


lemma forEachSector_append:
  "forEachSector grid allow arr (ss @ ts) =
     (case forEachSector grid allow arr ss of
        Inl e \<Rightarrow> Inl e
      | Inr arr' \<Rightarrow> forEachSector grid allow arr' ts)"
  by (induction ss arbitrary: arr) (auto split: sum.splits)

lemma forItems_flat:
  "forItems grid allow arr layout =
     forEachSector grid allow arr (concat (map layoutItemToSectors layout))"
  by (induction layout arbitrary: arr) (auto simp: forEachSector_append split: sum.splits)

lemma forEachSector_length:
  "forEachSector grid allow arr ss = Inr arr' \<Longrightarrow> length arr' = length arr"
  by (induction ss arbitrary: arr) (auto split: sum.splits dest: markSector_length)

lemma forEachSector_occupied:
  "forEachSector grid allow arr ss = Inr arr' \<Longrightarrow>
     occupied arr' c =
       (occupied arr c \<or> (\<exists>s \<in> set ss. marked grid s \<and> y c = y s \<and> x c = x s))"
proof (induction ss arbitrary: arr)
  case Nil
  then show ?case by simp
next
  case (Cons s ss)
  then obtain arr1 where 1: "markSector grid allow arr s = Inr arr1"
    and 2: "forEachSector grid allow arr1 ss = Inr arr'"
    by (auto split: sum.splits)
  show ?case
    unfolding Cons.IH[OF 2] markSector_occupied[OF 1] by auto
qed

lemma forEachSector_fresh:
  "forEachSector grid False arr ss = Inr arr' \<Longrightarrow> s \<in> set ss \<Longrightarrow> marked grid s
     \<Longrightarrow> \<not> occupied arr s"
proof (induction ss arbitrary: arr)
  case Nil
  then show ?case by simp
next
  case (Cons t ss)
  then obtain arr1 where 1: "markSector grid False arr t = Inr arr1"
    and 2: "forEachSector grid False arr1 ss = Inr arr'"
    by (auto split: sum.splits)
  show ?case
  proof (cases "s = t")
    case True
    with 1 Cons.prems(3) show ?thesis by (auto dest: markSector_fresh)
  next
    case False
    with Cons.prems have "s \<in> set ss" by simp
    from Cons.IH[OF 2 this Cons.prems(3)] have "\<not> occupied arr1 s" .
    then show ?thesis unfolding markSector_occupied[OF 1] by simp
  qed
qed

lemma forEachSector_no_TypeError:
  "length arr = rows grid \<Longrightarrow> \<forall>s \<in> set ss. 0 \<le> y s
     \<Longrightarrow> forEachSector grid allow arr ss \<noteq> Inl TypeError"
proof (induction ss arbitrary: arr)
  case Nil
  then show ?case by simp
next
  case (Cons s ss)
  then have y: "0 \<le> y s" by simp
  show ?case
  proof (cases "markSector grid allow arr s")
    case (Inl e)
    with Cons.prems(1) y show ?thesis
      by (auto simp: markSector_cases split: if_splits)
  next
    case (Inr arr1)
    with Cons.prems have "length arr1 = rows grid" by (simp add: markSector_length)
    from Cons.IH[OF this] Cons.prems(2) Inr show ?thesis by simp
  qed
qed

lemma forEachSector_allow_total:
  "length arr = rows grid \<Longrightarrow> \<forall>s \<in> set ss. 0 \<le> y s
     \<Longrightarrow> \<exists>arr'. forEachSector grid True arr ss = Inr arr'"
proof (induction ss arbitrary: arr)
  case Nil
  then show ?case by simp
next
  case (Cons s ss)
  then have y: "0 \<le> y s" by simp
  from Cons.prems(1) y obtain arr1 where 1: "markSector grid True arr s = Inr arr1"
    by (auto simp: markSector_cases)
  with Cons.prems have "length arr1 = rows grid" by (simp add: markSector_length)
  from Cons.IH[OF this] Cons.prems(2) 1 show ?case by simp
qed

lemma forEachSector_filter_marked:
  "forEachSector grid allow arr (filter (marked grid) ss) = forEachSector grid allow arr ss"
proof (induction ss arbitrary: arr)
  case Nil
  then show ?case by simp
next
  case (Cons s ss)
  show ?case
  proof (cases "marked grid s")
    case True
    with Cons.IH show ?thesis by (simp split: sum.splits)
  next
    case False
    then have "markSector grid allow arr s = Inr arr" by (auto simp: markSector_def marked_def)
    with False Cons.IH show ?thesis by simp
  qed
qed


lemma set_layoutItemToSectors:
  "set (layoutItemToSectors item) =
     (\<Union>i \<in> {x item..x item + width item - 1}.
        (\<lambda>j. \<lparr>x = i, y = j\<rparr>) ` {y item..y item + height item - 1})"
  by (simp add: layoutItemToSectors_def)

lemma sector_iff:
  "s \<in> set (layoutItemToSectors item) \<longleftrightarrow>
     x item \<le> x s \<and> x s < x item + width item \<and> y item \<le> y s \<and> y s < y item + height item"
proof
  assume "s \<in> set (layoutItemToSectors item)"
  then obtain i j where "i \<in> {x item..x item + width item - 1}"
    "j \<in> {y item..y item + height item - 1}" "s = \<lparr>x = i, y = j\<rparr>"
    unfolding set_layoutItemToSectors by blast
  then show "x item \<le> x s \<and> x s < x item + width item \<and> y item \<le> y s \<and> y s < y item + height item"
    by simp
next
  assume a: "x item \<le> x s \<and> x s < x item + width item \<and> y item \<le> y s \<and> y s < y item + height item"
  have "s = \<lparr>x = x s, y = y s\<rparr>" by simp
  moreover from a have "x s \<in> {x item..x item + width item - 1}"
    "y s \<in> {y item..y item + height item - 1}" by auto
  ultimately show "s \<in> set (layoutItemToSectors item)"
    unfolding set_layoutItemToSectors by blast
qed

lemma occupied_initial: "\<not> occupied (replicate n (newRow m)) c"
  by (auto simp: occupied_def rowAt_def newRow_def truthy_def split: if_splits)

lemma Position_eqI: "x (c::Position) = x s \<Longrightarrow> y c = y s \<Longrightarrow> c = s"
  by simp

lemma layoutTo2DArray_occupied:
  assumes "layoutTo2DArray grid layout allow = Inr arr"
  shows "occupied arr c =
           (marked grid c \<and> (\<exists>item \<in> set layout. c \<in> set (layoutItemToSectors item)))"
proof -
  from assms have "forEachSector grid allow (replicate (rows grid) (newRow (columns grid)))
      (concat (map layoutItemToSectors layout)) = Inr arr"
    by (simp add: layoutTo2DArray_def forItems_flat)
  from forEachSector_occupied[OF this, of c]
  have "occupied arr c = (\<exists>s \<in> set (concat (map layoutItemToSectors layout)).
          marked grid s \<and> y c = y s \<and> x c = x s)"
    by (simp add: occupied_initial)
  also have "\<dots> = (marked grid c \<and> (\<exists>item \<in> set layout. c \<in> set (layoutItemToSectors item)))"
  proof
    assume "\<exists>s \<in> set (concat (map layoutItemToSectors layout)).
          marked grid s \<and> y c = y s \<and> x c = x s"
    then obtain s where s: "s \<in> set (concat (map layoutItemToSectors layout))"
      "marked grid s" "y c = y s" "x c = x s" by blast
    then have "c = s" by simp
    with s show "marked grid c \<and> (\<exists>item \<in> set layout. c \<in> set (layoutItemToSectors item))"
      by auto
  next
    assume "marked grid c \<and> (\<exists>item \<in> set layout. c \<in> set (layoutItemToSectors item))"
    then show "\<exists>s \<in> set (concat (map layoutItemToSectors layout)).
          marked grid s \<and> y c = y s \<and> x c = x s"
      by auto
  qed
  finally show ?thesis .
qed

lemma overlayLoop_nonneg:
  "\<forall>s \<in> set ss. 0 \<le> y s \<Longrightarrow>
     overlayLoop arr ss =
       Inr (\<exists>s \<in> set ss. y s < int (length arr) \<and> x s < int (rlength (arr ! nat (y s)))
                          \<and> truthy (relems (arr ! nat (y s)) (x s)))"
  by (induction ss) (auto simp: rowAt_def)

section \<open>Placement search is sound\<close>

lemma scanRow_Some:
  "scanRow grid arr item i row js = Inr (Some p) \<Longrightarrow>
     \<exists>j \<in> set js. p = \<lparr>x = int j, y = int i\<rparr>
        \<and> willItemOverlay arr (item\<lparr>x := int j, y := int i\<rparr>) = Inr False
        \<and> int j + width item \<le> int (columns grid) \<and> int i + height item \<le> int (rows grid)"
  by (induction js) (auto split: if_splits sum.splits simp: Let_def)

lemma scanRows_Some:
  "scanRows grid arr item is = Inr (Some p) \<Longrightarrow>
     \<exists>i j. p = \<lparr>x = int j, y = int i\<rparr>
        \<and> willItemOverlay arr (item\<lparr>x := int j, y := int i\<rparr>) = Inr False
        \<and> int j + width item \<le> int (columns grid) \<and> int i + height item \<le> int (rows grid)"
proof (induction "is")
  case Nil
  then show ?case by simp
next
  case (Cons i "is")
  show ?case
  proof (cases "scanRow grid arr item i (arr ! i) [0..<rlength (arr ! i)]")
    case (Inl e)
    with Cons.prems show ?thesis by simp
  next
    case (Inr r)
    show ?thesis
    proof (cases r)
      case None
      with Inr Cons show ?thesis by simp
    next
      case (Some q)
      with Inr Cons.prems have "scanRow grid arr item i (arr ! i) [0..<rlength (arr ! i)] = Inr (Some p)"
        by simp
      from scanRow_Some[OF this] show ?thesis by blast
    qed
  qed
qed

lemma willItemOverlay_False:
  assumes "willItemOverlay arr item = Inr False" and "0 \<le> y item"
    and "hasDimensions grid arr"
    and "s \<in> set (layoutItemToSectors item)" and "x s < int (columns grid)"
  shows "\<not> occupied arr s"
proof
  assume occ: "occupied arr s"
  then obtain r where r: "rowAt arr (y s) = Some r" and t: "truthy (relems r (x s))"
    by (auto simp: occupied_def split: option.splits)
  from rowAt_Some[OF r] have ys: "0 \<le> y s" "nat (y s) < length arr" "r = arr ! nat (y s)"
    by auto
  with assms(3) have "rlength (arr ! nat (y s)) = columns grid"
    by (simp add: hasDimensions_def list_all_length)
  have "\<forall>s \<in> set (layoutItemToSectors item). 0 \<le> y s"
    using assms(2) by (auto simp: sector_iff)
  from overlayLoop_nonneg[OF this, of arr] assms(1)
  have "\<not> (\<exists>s \<in> set (layoutItemToSectors item). y s < int (length arr)
            \<and> x s < int (rlength (arr ! nat (y s)))
            \<and> truthy (relems (arr ! nat (y s)) (x s)))"
    by (simp add: willItemOverlay_def)
  with assms(4,5) ys t \<open>rlength (arr ! nat (y s)) = columns grid\<close>
  show False by auto
qed

text \<open>
  C1. If \<open>findPositionForItemInGrid\<close> returns a position \<open>p\<close>, then the occupancy
  matrix of the layout was built, every cell of the item placed at \<open>p\<close> lies in
  the grid, is unoccupied in that matrix and is covered by no item of the layout, and
  \<open>0 \<le> p.x\<close>, \<open>0 \<le> p.y\<close>, \<open>p.x + width \<le> columns\<close>, \<open>p.y + height \<le> rows\<close>.
\<close>

theorem findPosition_sound:
  assumes "findPositionForItemInGrid grid layout item = Inr (Some p)"
  shows "\<exists>arr. layoutTo2DArray grid layout False = Inr arr
           \<and> (\<forall>s \<in> set (layoutItemToSectors (item\<lparr>x := x p, y := y p\<rparr>)).
                  inGrid grid s \<and> \<not> occupied arr s
                  \<and> (\<forall>other \<in> set layout. s \<notin> set (layoutItemToSectors other)))
           \<and> 0 \<le> x p \<and> 0 \<le> y p
           \<and> x p + width item \<le> int (columns grid)
           \<and> y p + height item \<le> int (rows grid)"
proof -
  from assms obtain arr where arr: "layoutTo2DArray grid layout False = Inr arr"
    and scan: "scanRows grid arr item [0..<length arr] = Inr (Some p)"
    by (auto simp: findPositionForItemInGrid_def split: sum.splits)
  from scanRows_Some[OF scan] obtain i j where p: "p = \<lparr>x = int j, y = int i\<rparr>"
    and free: "willItemOverlay arr (item\<lparr>x := int j, y := int i\<rparr>) = Inr False"
    and fit: "int j + width item \<le> int (columns grid)" "int i + height item \<le> int (rows grid)"
    by blast
  let ?placed = "item\<lparr>x := x p, y := y p\<rparr>"
  from layoutTo2DArray_hasDimensions[OF arr] have dims: "hasDimensions grid arr" .
  have cells: "inGrid grid s \<and> \<not> occupied arr s
                  \<and> (\<forall>other \<in> set layout. s \<notin> set (layoutItemToSectors other))"
    if s: "s \<in> set (layoutItemToSectors ?placed)" for s
  proof -
    from s p fit have ing: "inGrid grid s" by (auto simp: sector_iff inGrid_def)
    from free p have "willItemOverlay arr ?placed = Inr False" by simp
    from willItemOverlay_False[OF this _ dims s] ing p
    have no: "\<not> occupied arr s" by (simp add: inGrid_def)
    from ing have "marked grid s" by (simp add: inGrid_def marked_def)
    with no show ?thesis
      unfolding layoutTo2DArray_occupied[OF arr] using ing by blast
  qed
  from arr cells p fit show ?thesis by auto
qed

theorem findPosition_sound_witness:
  "findPositionForItemInGrid grid3 [mkItem 0 0 2 2] (mkItem 0 0 1 1) = Inr (Some \<lparr>x = 2, y = 0\<rparr>)
   \<and> (\<exists>arr. layoutTo2DArray grid3 [mkItem 0 0 2 2] False = Inr arr
        \<and> \<not> occupied arr \<lparr>x = 2, y = 0\<rparr>)
   \<and> (2::int) + 1 \<le> int (columns grid3) \<and> (0::int) + 1 \<le> int (rows grid3)"
proof -
  have f: "findPositionForItemInGrid grid3 [mkItem 0 0 2 2] (mkItem 0 0 1 1)
             = Inr (Some \<lparr>x = 2, y = 0\<rparr>)"
    by code_simp
  from findPosition_sound[OF f] obtain arr where
    "layoutTo2DArray grid3 [mkItem 0 0 2 2] False = Inr arr"
    "\<forall>s \<in> set (layoutItemToSectors ((mkItem 0 0 1 1)\<lparr>x := 2, y := 0\<rparr>)). \<not> occupied arr s"
    by auto
  moreover have "\<lparr>x = 2, y = 0\<rparr> \<in> set (layoutItemToSectors ((mkItem 0 0 1 1)\<lparr>x := 2, y := 0\<rparr>))"
    by (simp add: sector_iff mkItem_def)
  ultimately have "\<exists>arr. layoutTo2DArray grid3 [mkItem 0 0 2 2] False = Inr arr
        \<and> \<not> occupied arr \<lparr>x = 2, y = 0\<rparr>" by blast
  with f show ?thesis by (simp add: grid3_def)
qed

section \<open>Cells beyond the extent of the grid\<close>

lemma filter_upto_less: "filter (\<lambda>k. k < c) [a..b] = [a..min b (c - 1)]"
proof (induction a b rule: upto.induct)
  case (1 i j)
  show ?case
  proof (cases "i \<le> j")
    case False
    then show ?thesis by simp
  next
    case True
    show ?thesis
    proof (cases "i < c")
      case True
      with \<open>i \<le> j\<close> 1 show ?thesis
        by (simp add: upto_rec1[of i j] upto_rec1[of i "min j (c - 1)"])
    next
      case False
      with \<open>i \<le> j\<close> 1 show ?thesis
        by (simp add: upto_rec1[of i j])
    qed
  qed
qed

lemma concat_map_if_filter:
  "concat (map (\<lambda>i. if P i then f i else []) xs) = concat (map f (filter P xs))"
  by (induction xs) auto

lemma marked_sectors_clip:
  "filter (marked grid) (layoutItemToSectors item) = layoutItemToSectors (clipItem grid item)"
proof -
  let ?c = "int (columns grid)" and ?r = "int (rows grid)"
  let ?ys = "[y item..y item + height item - 1]"
  have inner: "filter (marked grid) (map (\<lambda>j. \<lparr>x = i, y = j\<rparr>) ?ys)
      = (if i < ?c then map (\<lambda>j. \<lparr>x = i, y = j\<rparr>) (filter (\<lambda>j. j < ?r) ?ys) else [])" for i
    by (simp add: filter_map comp_def marked_def not_le)
  have "filter (marked grid) (layoutItemToSectors item)
      = concat (map (\<lambda>i. map (\<lambda>j. \<lparr>x = i, y = j\<rparr>) (filter (\<lambda>j. j < ?r) ?ys))
                    (filter (\<lambda>i. i < ?c) [x item..x item + width item - 1]))"
    unfolding layoutItemToSectors_def filter_concat map_map comp_def inner
    by (rule concat_map_if_filter)
  also have "\<dots> = layoutItemToSectors (clipItem grid item)"
    unfolding filter_upto_less layoutItemToSectors_def clipItem_def
    by (simp add: min_def)
  finally show ?thesis .
qed

lemma layoutTo2DArray_clip:
  "layoutTo2DArray grid (map (clipItem grid) layout) allow = layoutTo2DArray grid layout allow"
proof -
  have "concat (map layoutItemToSectors (map (clipItem grid) layout))
      = filter (marked grid) (concat (map layoutItemToSectors layout))"
    by (simp add: filter_concat comp_def marked_sectors_clip)
  then show ?thesis
    by (simp add: layoutTo2DArray_def forItems_flat forEachSector_filter_marked)
qed

lemma layoutTo2DArray_no_TypeError:
  assumes "\<forall>item \<in> set layout. 0 \<le> y item"
  shows "layoutTo2DArray grid layout allow \<noteq> Inl TypeError"
  unfolding layoutTo2DArray_def forItems_flat
  by (rule forEachSector_no_TypeError) (use assms in \<open>auto simp: sector_iff\<close>)

lemma layoutTo2DArray_allow_total:
  assumes "\<forall>item \<in> set layout. 0 \<le> y item"
  shows "\<exists>arr. layoutTo2DArray grid layout True = Inr arr"
  unfolding layoutTo2DArray_def forItems_flat
  by (rule forEachSector_allow_total) (use assms in \<open>auto simp: sector_iff\<close>)

text \<open>
  C5, as amended. For a layout whose items have non-negative coordinates, the cells
  outside the grid have no effect: the result (the matrix, or the overlap error) is the
  one of the layout clipped to the grid, whose items cover exactly the cells of the
  original items that lie in the grid, and no \<open>TypeError\<close> is raised.
\<close>

theorem layoutTo2DArray_ignores_overhang:
  assumes "\<forall>item \<in> set layout. 0 \<le> x item \<and> 0 \<le> y item"
  shows "layoutTo2DArray grid layout allowOverlay
           = layoutTo2DArray grid (map (clipItem grid) layout) allowOverlay
         \<and> (\<forall>item \<in> set layout. \<forall>s.
               s \<in> set (layoutItemToSectors (clipItem grid item))
                 \<longleftrightarrow> s \<in> set (layoutItemToSectors item) \<and> inGrid grid s)
         \<and> layoutTo2DArray grid layout allowOverlay \<noteq> Inl TypeError"
proof -
  have "s \<in> set (layoutItemToSectors (clipItem grid item))
          \<longleftrightarrow> s \<in> set (layoutItemToSectors item) \<and> inGrid grid s"
    if "item \<in> set layout" for item s
  proof -
    from that assms have "0 \<le> x item" "0 \<le> y item" by auto
    then have "s \<in> set (layoutItemToSectors item) \<Longrightarrow> marked grid s = inGrid grid s"
      by (auto simp: sector_iff marked_def inGrid_def)
    then show ?thesis
      unfolding marked_sectors_clip[symmetric] by auto
  qed
  moreover have "layoutTo2DArray grid layout allowOverlay \<noteq> Inl TypeError"
    using assms by (intro layoutTo2DArray_no_TypeError) auto
  ultimately show ?thesis by (simp add: layoutTo2DArray_clip)
qed

theorem layoutTo2DArray_ignores_overhang_witness:
  "0 \<le> x (mkItem 2 2 2 2) \<and> 0 \<le> y (mkItem 2 2 2 2)
   \<and> layoutTo2DArray grid3 [mkItem 2 2 2 2] False = layoutTo2DArray grid3 [mkItem 2 2 1 1] False
   \<and> layoutTo2DArray grid3 [mkItem 2 2 2 2] False \<noteq> Inl TypeError"
proof -
  have h: "\<forall>item \<in> set [mkItem 2 2 2 2]. 0 \<le> x item \<and> 0 \<le> y item"
    by (simp add: mkItem_def)
  have c: "map (clipItem grid3) [mkItem 2 2 2 2] = [mkItem 2 2 1 1]"
    by (simp add: clipItem_def mkItem_def grid3_def)
  from layoutTo2DArray_ignores_overhang[OF h, of grid3 False]
  have "layoutTo2DArray grid3 [mkItem 2 2 2 2] False = layoutTo2DArray grid3 [mkItem 2 2 1 1] False"
    and "layoutTo2DArray grid3 [mkItem 2 2 2 2] False \<noteq> Inl TypeError"
    unfolding c by blast+
  moreover have "0 \<le> x (mkItem 2 2 2 2) \<and> 0 \<le> y (mkItem 2 2 2 2)"
    by (simp add: mkItem_def)
  ultimately show ?thesis by blast
qed

theorem layoutTo2DArray_negative_counterexample:
  "layoutItemToSectors (mkItem 0 (-1) 1 1) = [\<lparr>x = 0, y = -1\<rparr>]
   \<and> \<not> inGrid grid3 \<lparr>x = 0, y = -1\<rparr>
   \<and> layoutTo2DArray grid3 [mkItem 0 (-1) 1 1] False = Inl TypeError
   \<and> layoutTo2DArray grid3 [mkItem 0 (-1) 1 1] True = Inl TypeError
   \<and> layoutItemToSectors (mkItem (-1) 0 1 1) = [\<lparr>x = -1, y = 0\<rparr>]
   \<and> \<not> inGrid grid3 \<lparr>x = -1, y = 0\<rparr>
   \<and> layoutTo2DArray grid3 [mkItem (-1) 0 1 1, mkItem (-1) 0 1 1] False = Inl OverlapError
   \<and> layoutTo2DArray grid3 ([]::unit LayoutItem list) False \<noteq> layoutTo2DArray grid3 [mkItem (-1) 0 1 1] False"
proof -
  obtain a where a: "layoutTo2DArray grid3 [mkItem (-1) 0 1 1] False = Inr a"
    "relems (a ! 0) (-1) = Some True"
    by (simp add: grid3_def mkItem_def eval_simps)
  obtain b where b: "layoutTo2DArray grid3 ([]::unit LayoutItem list) False = Inr b" "relems (b ! 0) (-1) = None"
    by (simp add: grid3_def mkItem_def eval_simps)
  from a b have "a \<noteq> b" by auto
  with a b have "layoutTo2DArray grid3 ([]::unit LayoutItem list) False \<noteq> layoutTo2DArray grid3 [mkItem (-1) 0 1 1] False"
    by simp
  then show ?thesis
    by (simp add: grid3_def mkItem_def eval_simps inGrid_def)
qed

section \<open>The collision checker\<close>

lemma willItemOverlay_nonneg_y:
  assumes "0 \<le> y item"
  shows "willItemOverlay arr item =
           Inr (\<exists>s \<in> set (layoutItemToSectors item).
                  y s < int (length arr) \<and> x s < int (rlength (arr ! nat (y s)))
                  \<and> truthy (relems (arr ! nat (y s)) (x s)))"
  unfolding willItemOverlay_def
  by (rule overlayLoop_nonneg) (use assms in \<open>auto simp: sector_iff\<close>)

text \<open>
  C6, as amended. For a candidate with non-negative coordinates and any matrix,
  \<open>willItemOverlay\<close> raises nothing and returns true exactly when a cell of the
  candidate that lies within the bounds of the matrix is occupied; the cells beyond
  the bounds are ignored.
\<close>

theorem willItemOverlay_nonneg:
  assumes "0 \<le> x item" and "0 \<le> y item"
  shows "willItemOverlay arr item =
           Inr (\<exists>s \<in> set (layoutItemToSectors item). withinBounds arr s \<and> occupied arr s)"
proof -
  have "(y s < int (length arr) \<and> x s < int (rlength (arr ! nat (y s)))
          \<and> truthy (relems (arr ! nat (y s)) (x s)))
        = (withinBounds arr s \<and> occupied arr s)"
    if "s \<in> set (layoutItemToSectors item)" for s
  proof -
    from that assms have "0 \<le> x s" "0 \<le> y s" by (auto simp: sector_iff)
    then show ?thesis
      by (auto simp: withinBounds_def occupied_def rowAt_def)
  qed
  then show ?thesis
    unfolding willItemOverlay_nonneg_y[OF assms(2)] by auto
qed

theorem willItemOverlay_nonneg_witness:
  "0 \<le> x (mkItem 1 1 2 2) \<and> 0 \<le> y (mkItem 1 1 2 2)
   \<and> (\<exists>arr. layoutTo2DArray grid3 [mkItem 0 0 2 2] False = Inr arr
         \<and> willItemOverlay arr (mkItem 1 1 2 2) = Inr True
         \<and> willItemOverlay arr (mkItem 2 2 2 2) = Inr False)"
proof -
  obtain arr where a: "layoutTo2DArray grid3 [mkItem 0 0 2 2] False = Inr arr"
    and d: "length arr = 3" "rlength (arr ! 1) = 3" "rlength (arr ! 2) = 3"
    and o: "relems (arr ! 1) 1 = Some True" "relems (arr ! 2) 2 = Some False"
    by (simp add: grid3_def mkItem_def eval_simps)
  have h: "0 \<le> x (mkItem 1 1 2 2)" "0 \<le> y (mkItem 1 1 2 2)"
    "0 \<le> x (mkItem 2 2 2 2)" "0 \<le> y (mkItem 2 2 2 2)"
    by (simp_all add: mkItem_def)
  have 1: "\<lparr>x = 1, y = 1\<rparr> \<in> set (layoutItemToSectors (mkItem 1 1 2 2))"
    by (simp add: sector_iff mkItem_def)
  have "withinBounds arr \<lparr>x = 1, y = 1\<rparr> \<and> occupied arr \<lparr>x = 1, y = 1\<rparr>"
    using d o by (simp add: withinBounds_def occupied_def rowAt_def truthy_def)
  with 1 willItemOverlay_nonneg[OF h(1,2), of arr]
  have t: "willItemOverlay arr (mkItem 1 1 2 2) = Inr True" by auto
  have "\<not> (withinBounds arr s \<and> occupied arr s)"
    if "s \<in> set (layoutItemToSectors (mkItem 2 2 2 2))" for s
  proof (cases "withinBounds arr s")
    case True
    with that d have ys: "y s = 2"
      by (auto simp: sector_iff mkItem_def withinBounds_def)
    with True that d have "x s = 2"
      by (auto simp: sector_iff mkItem_def withinBounds_def)
    with ys d o show ?thesis
      by (simp add: occupied_def rowAt_def truthy_def)
  qed simp
  with willItemOverlay_nonneg[OF h(3,4), of arr]
  have "willItemOverlay arr (mkItem 2 2 2 2) = Inr False" by auto
  with a t h show ?thesis by blast
qed

theorem willItemOverlay_negative_counterexample:
  "layoutItemToSectors (mkItem 0 (-1) 1 1) = [\<lparr>x = 0, y = -1\<rparr>]
   \<and> \<not> withinBounds [newRow 1] \<lparr>x = 0, y = -1\<rparr>
   \<and> willItemOverlay [newRow 1] (mkItem 0 (-1) 1 1) = Inl TypeError
   \<and> layoutItemToSectors (mkItem (-1) 0 1 1) = [\<lparr>x = -1, y = 0\<rparr>]
   \<and> \<not> withinBounds [setTrue (newRow 1) (-1)] \<lparr>x = -1, y = 0\<rparr>
   \<and> layoutTo2DArray \<lparr>boxSize = 10, columns = 1, rows = 1, minColumns = 1, minRows = 1\<rparr>
        [mkItem (-1) 0 1 1] False = Inr [setTrue (newRow 1) (-1)]
   \<and> willItemOverlay [setTrue (newRow 1) (-1)] (mkItem (-1) 0 1 1) = Inr True"
  by (simp add: mkItem_def eval_simps withinBounds_def)

section \<open>Non-negative coordinates: every access is in bounds\<close>








section \<open>Overlap detection\<close>

lemma forEachSector_Inl_split:
  "forEachSector grid allow arr ss = Inl e \<Longrightarrow>
     \<exists>pre s post arr1. ss = pre @ s # post
        \<and> forEachSector grid allow arr pre = Inr arr1
        \<and> markSector grid allow arr1 s = Inl e"
proof (induction ss arbitrary: arr)
  case Nil
  then show ?case by simp
next
  case (Cons t ss)
  show ?case
  proof (cases "markSector grid allow arr t")
    case (Inl e')
    with Cons.prems have "t # ss = [] @ t # ss \<and> forEachSector grid allow arr [] = Inr arr
        \<and> markSector grid allow arr t = Inl e" by simp
    then show ?thesis by blast
  next
    case (Inr arr0)
    with Cons.prems have "forEachSector grid allow arr0 ss = Inl e" by simp
    from Cons.IH[OF this] obtain pre s post arr1 where
      "ss = pre @ s # post" "forEachSector grid allow arr0 pre = Inr arr1"
      "markSector grid allow arr1 s = Inl e" by blast
    with Inr have "t # ss = (t # pre) @ s # post
        \<and> forEachSector grid allow arr (t # pre) = Inr arr1
        \<and> markSector grid allow arr1 s = Inl e" by simp
    then show ?thesis by blast
  qed
qed

lemma markSector_OverlapError:
  "markSector grid allow arr s = Inl OverlapError \<Longrightarrow> marked grid s \<and> occupied arr s"
  by (auto simp: markSector_def marked_def occupied_def split: if_splits option.splits)

lemma shared_cell_no_matrix:
  assumes "k1 < k2" and "k2 < length layout"
    and "c \<in> set (layoutItemToSectors (layout ! k1))"
    and "c \<in> set (layoutItemToSectors (layout ! k2))"
    and "marked grid c"
  shows "layoutTo2DArray grid layout False \<noteq> Inr arr"
proof
  assume "layoutTo2DArray grid layout False = Inr arr"
  let ?init = "replicate (rows grid) (newRow (columns grid))"
  let ?A = "concat (map layoutItemToSectors (take k2 layout))"
  let ?B = "layoutItemToSectors (layout ! k2)"
  let ?C = "concat (map layoutItemToSectors (drop (Suc k2) layout))"
  have "concat (map layoutItemToSectors layout) = ?A @ ?B @ ?C"
    using id_take_nth_drop[OF assms(2)]
    by (metis append_assoc concat.simps(2) concat_append list.simps(9) map_append)
  with \<open>layoutTo2DArray grid layout False = Inr arr\<close>
  have "forEachSector grid False ?init (?A @ ?B @ ?C) = Inr arr"
    by (simp add: layoutTo2DArray_def forItems_flat)
  then obtain arr1 arr2 where 1: "forEachSector grid False ?init ?A = Inr arr1"
    and 2: "forEachSector grid False arr1 ?B = Inr arr2"
    by (auto simp: forEachSector_append split: sum.splits)
  from assms(1,2) have "layout ! k1 \<in> set (take k2 layout)"
    by (metis in_set_conv_nth length_take min.absorb2 nth_take less_imp_le_nat)
  with assms(3) have "c \<in> set ?A" by auto
  with assms(5) have "occupied arr1 c"
    unfolding forEachSector_occupied[OF 1] by blast
  with forEachSector_fresh[OF 2 assms(4,5)] show False by simp
qed

text \<open>
  C2, as amended. In a layout whose items all have \<open>y \<ge> 0\<close>, let two different items
  (at the indices \<open>k1 < k2\<close>) cover a common cell \<open>c\<close> of the grid. With
  \<open>allowOverlay = false\<close> the construction raises the overlap error, and it raises it at
  the first repeated write: the writes of the sectors \<open>pre\<close> before it all succeeded and
  the sector \<open>s\<close> that raises was written among them. With \<open>allowOverlay = true\<close> the
  construction returns a matrix, in which a cell is occupied exactly when it passes the
  guard and some item covers it (a repeated mark changes nothing).
\<close>

theorem overlap_detected:
  assumes "\<forall>it \<in> set layout. 0 \<le> y it"
    and "k1 < k2" and "k2 < length layout"
    and "c \<in> set (layoutItemToSectors (layout ! k1))"
    and "c \<in> set (layoutItemToSectors (layout ! k2))"
    and "inGrid grid c"
  shows "layoutTo2DArray grid layout False = Inl OverlapError
       \<and> (\<exists>pre s post arr1.
             concat (map layoutItemToSectors layout) = pre @ s # post
             \<and> forEachSector grid False (replicate (rows grid) (newRow (columns grid))) pre
                 = Inr arr1
             \<and> s \<in> set pre
             \<and> markSector grid False arr1 s = Inl OverlapError)
       \<and> (\<exists>arr. layoutTo2DArray grid layout True = Inr arr
             \<and> (\<forall>s. occupied arr s
                  \<longleftrightarrow> marked grid s \<and> (\<exists>it \<in> set layout. s \<in> set (layoutItemToSectors it))))"
proof -
  let ?init = "replicate (rows grid) (newRow (columns grid))"
  from assms(6) have m: "marked grid c" by (simp add: inGrid_def marked_def)
  have "layoutTo2DArray grid layout False \<noteq> Inr arr" for arr
    by (rule shared_cell_no_matrix[OF assms(2-5) m])
  moreover have "layoutTo2DArray grid layout False \<noteq> Inl TypeError"
    by (rule layoutTo2DArray_no_TypeError[OF assms(1)])
  ultimately have err: "layoutTo2DArray grid layout False = Inl OverlapError"
    by (cases "layoutTo2DArray grid layout False") (auto intro: error.exhaust)
  then have "forEachSector grid False ?init (concat (map layoutItemToSectors layout))
      = Inl OverlapError"
    by (simp add: layoutTo2DArray_def forItems_flat)
  from forEachSector_Inl_split[OF this] obtain pre s post arr1 where
    sp: "concat (map layoutItemToSectors layout) = pre @ s # post"
    and pre: "forEachSector grid False ?init pre = Inr arr1"
    and s: "markSector grid False arr1 s = Inl OverlapError" by blast
  from markSector_OverlapError[OF s] have "occupied arr1 s" by simp
  then obtain t where t: "t \<in> set pre" and "y s = y t" "x s = x t"
    unfolding forEachSector_occupied[OF pre] by (auto simp: occupied_initial)
  then have "s = t" by simp
  with t have "s \<in> set pre" by simp
  with sp pre s have first: "\<exists>pre s post arr1.
             concat (map layoutItemToSectors layout) = pre @ s # post
             \<and> forEachSector grid False ?init pre = Inr arr1
             \<and> s \<in> set pre
             \<and> markSector grid False arr1 s = Inl OverlapError" by blast
  from layoutTo2DArray_allow_total[OF assms(1)] obtain arr where
    arr: "layoutTo2DArray grid layout True = Inr arr" by blast
  have "\<forall>s. occupied arr s
          \<longleftrightarrow> marked grid s \<and> (\<exists>it \<in> set layout. s \<in> set (layoutItemToSectors it))"
    using layoutTo2DArray_occupied[OF arr] by simp
  with arr err first show ?thesis by blast
qed

theorem overlap_detected_witness:
  "0 \<le> y (mkItem 0 0 2 2) \<and> 0 \<le> y (mkItem 1 1 2 2)
   \<and> \<lparr>x = 1, y = 1\<rparr> \<in> set (layoutItemToSectors ([mkItem 0 0 2 2, mkItem 1 1 2 2] ! 0))
   \<and> \<lparr>x = 1, y = 1\<rparr> \<in> set (layoutItemToSectors ([mkItem 0 0 2 2, mkItem 1 1 2 2] ! 1))
   \<and> inGrid grid3 \<lparr>x = 1, y = 1\<rparr>
   \<and> layoutTo2DArray grid3 [mkItem 0 0 2 2, mkItem 1 1 2 2] False = Inl OverlapError
   \<and> (\<exists>arr. layoutTo2DArray grid3 [mkItem 0 0 2 2, mkItem 1 1 2 2] True = Inr arr)"
proof -
  let ?L = "[mkItem 0 0 2 2, mkItem 1 1 2 2]"
  have h: "\<forall>it \<in> set ?L. 0 \<le> y it" "(0::nat) < 1" "1 < length ?L"
    "\<lparr>x = 1, y = 1\<rparr> \<in> set (layoutItemToSectors (?L ! 0))"
    "\<lparr>x = 1, y = 1\<rparr> \<in> set (layoutItemToSectors (?L ! 1))"
    "inGrid grid3 \<lparr>x = 1, y = 1\<rparr>"
    by (simp_all add: mkItem_def sector_iff inGrid_def grid3_def)
  from overlap_detected[OF h]
  have "layoutTo2DArray grid3 ?L False = Inl OverlapError"
    and "\<exists>arr. layoutTo2DArray grid3 ?L True = Inr arr" by blast+
  moreover have "0 \<le> y (mkItem 0 0 2 2) \<and> 0 \<le> y (mkItem 1 1 2 2)"
    by (simp add: mkItem_def)
  ultimately show ?thesis using h(4-6) by blast
qed

theorem overlap_negative_row_counterexample:
  "\<lparr>x = 0, y = 0\<rparr> \<in> set (layoutItemToSectors
       ([mkItem 0 (-1) 1 1, mkItem 0 0 1 1, mkItem 0 0 1 1] ! 1))
   \<and> \<lparr>x = 0, y = 0\<rparr> \<in> set (layoutItemToSectors
       ([mkItem 0 (-1) 1 1, mkItem 0 0 1 1, mkItem 0 0 1 1] ! 2))
   \<and> inGrid grid3 \<lparr>x = 0, y = 0\<rparr>
   \<and> layoutTo2DArray grid3 [mkItem 0 (-1) 1 1, mkItem 0 0 1 1, mkItem 0 0 1 1] False
       = Inl TypeError
   \<and> layoutTo2DArray grid3 [mkItem 0 (-1) 1 1, mkItem 0 0 1 1, mkItem 0 0 1 1] True
       = Inl TypeError"
  by (simp add: grid3_def mkItem_def eval_simps inGrid_def)

section \<open>Placement search is first-fit in row-major order\<close>

lemma scanRow_find:
  "scanRow grid arr item i (arr ! i) js =
     Inr (map_option (\<lambda>j. \<lparr>x = int j, y = int i\<rparr>) (find (acceptable grid arr item i) js))"
proof (induction js)
  case Nil
  then show ?case by simp
next
  case (Cons j js)
  have "0 \<le> y (item\<lparr>x := int j, y := int i\<rparr>)" by simp
  from willItemOverlay_nonneg_y[OF this, of arr]
  obtain b where b: "willItemOverlay arr (item\<lparr>x := int j, y := int i\<rparr>) = Inr b" by blast
  with Cons show ?case
    by (cases b) (auto simp: acceptable_def Let_def)
qed

lemma scanRows_find:
  "scanRows grid arr item is =
     Inr (case find (\<lambda>i. find (acceptable grid arr item i) [0..<rlength (arr ! i)] \<noteq> None) is of
            None \<Rightarrow> None
          | Some i \<Rightarrow> map_option (\<lambda>j. \<lparr>x = int j, y = int i\<rparr>)
                        (find (acceptable grid arr item i) [0..<rlength (arr ! i)]))"
  by (induction "is") (auto simp: scanRow_find split: option.splits)

lemma acceptable_iff_placeable:
  assumes "hasDimensions grid arr" and "i < rows grid" and "j < columns grid"
  shows "acceptable grid arr item i j = placeable grid arr item j i"
proof -
  let ?placed = "item\<lparr>x := int j, y := int i\<rparr>"
  from assms(1,2) have len: "length arr = rows grid"
    and row: "\<And>k. k < rows grid \<Longrightarrow> rlength (arr ! k) = columns grid"
    by (simp_all add: hasDimensions_def list_all_length)
  have occ_origin: "occupied arr \<lparr>x = int j, y = int i\<rparr> = truthy (relems (arr ! i) (int j))"
    using assms(2) len by (simp add: occupied_def rowAt_def)
  show ?thesis
  proof (cases "int j + width item \<le> int (columns grid) \<and> int i + height item \<le> int (rows grid)")
    case False
    then show ?thesis by (auto simp: acceptable_def placeable_def validOrigin_def)
  next
    case True
    have "(y s < int (length arr) \<and> x s < int (rlength (arr ! nat (y s)))
            \<and> truthy (relems (arr ! nat (y s)) (x s))) = occupied arr s"
      if "s \<in> set (layoutItemToSectors ?placed)" for s
    proof -
      from that True have "0 \<le> y s" "y s < int (rows grid)" "x s < int (columns grid)"
        by (auto simp: sector_iff)
      with len row[of "nat (y s)"] show ?thesis
        by (auto simp: occupied_def rowAt_def)
    qed
    then have "willItemOverlay arr ?placed
        = Inr (\<exists>s \<in> set (layoutItemToSectors ?placed). occupied arr s)"
      by (subst willItemOverlay_nonneg_y) auto
    with True occ_origin show ?thesis
      by (auto simp: acceptable_def placeable_def validOrigin_def)
  qed
qed

lemma validOrigin_origin_free:
  assumes "1 \<le> width item" and "1 \<le> height item" and "validOrigin grid arr item j i"
  shows "\<not> occupied arr \<lparr>x = int j, y = int i\<rparr>"
proof -
  have "\<lparr>x = int j, y = int i\<rparr> \<in> set (layoutItemToSectors (item\<lparr>x := int j, y := int i\<rparr>))"
    using assms(1,2) by (simp add: sector_iff)
  with assms(3) show ?thesis by (simp add: validOrigin_def)
qed

lemma find_upt_None: "find Q [0..<n] = None \<longleftrightarrow> (\<forall>k<n. \<not> Q k)"
  by (auto simp: find_None_iff)

lemma find_upt_Some: "find Q [0..<n] = Some k \<longleftrightarrow> k < n \<and> Q k \<and> (\<forall>m<k. \<not> Q m)"
  by (auto simp: find_Some_iff)

text \<open>
  C4, as amended. For every item size: if the occupancy matrix cannot be built, the
  search raises the same error; otherwise either the search returns "not found" and no
  origin of the grid is placeable, or it returns the origin (column \<open>j\<close>, row \<open>i\<close>)
  that is placeable while no origin before it in row-major order (a smaller row, or the
  same row and a smaller column) is. An origin is placeable when its own cell is
  unoccupied and the item placed there is within the grid and meets no occupied cell.
  For an item of width and height at least 1 the origin cell belongs to the footprint,
  and placeable is the same as valid (within the grid, meeting no occupied cell).
\<close>

theorem findPosition_first_fit:
  "case layoutTo2DArray grid layout False of
     Inl e \<Rightarrow> findPositionForItemInGrid grid layout item = Inl e
   | Inr arr \<Rightarrow>
       ((findPositionForItemInGrid grid layout item = Inr None
           \<and> (\<forall>i<rows grid. \<forall>j<columns grid. \<not> placeable grid arr item j i))
        \<or> (\<exists>i j. i < rows grid \<and> j < columns grid
              \<and> findPositionForItemInGrid grid layout item
                  = Inr (Some \<lparr>x = int j, y = int i\<rparr>)
              \<and> placeable grid arr item j i
              \<and> (\<forall>i' j'. i' < rows grid \<longrightarrow> j' < columns grid
                    \<longrightarrow> (i' < i \<or> (i' = i \<and> j' < j))
                    \<longrightarrow> \<not> placeable grid arr item j' i')))
       \<and> (1 \<le> width item \<and> 1 \<le> height item \<longrightarrow>
             (\<forall>i j. placeable grid arr item j i = validOrigin grid arr item j i))"
proof (cases "layoutTo2DArray grid layout False")
  case (Inl e)
  then show ?thesis by (simp add: findPositionForItemInGrid_def)
next
  case (Inr arr)
  from layoutTo2DArray_hasDimensions[OF Inr] have dims: "hasDimensions grid arr" .
  then have len: "length arr = rows grid"
    and row: "\<And>k. k < rows grid \<Longrightarrow> rlength (arr ! k) = columns grid"
    by (simp_all add: hasDimensions_def list_all_length)
  note av = acceptable_iff_placeable[OF dims]
  let ?P = "\<lambda>i. find (acceptable grid arr item i) [0..<rlength (arr ! i)] \<noteq> None"
  have f: "findPositionForItemInGrid grid layout item =
     Inr (case find ?P [0..<rows grid] of
            None \<Rightarrow> None
          | Some i \<Rightarrow> map_option (\<lambda>j. \<lparr>x = int j, y = int i\<rparr>)
                        (find (acceptable grid arr item i) [0..<rlength (arr ! i)]))"
    by (simp add: findPositionForItemInGrid_def Inr scanRows_find len)
  have none: "\<not> ?P i \<longleftrightarrow> (\<forall>j<columns grid. \<not> placeable grid arr item j i)"
    if "i < rows grid" for i
    using that by (simp add: row find_upt_None av)
  have sizes: "1 \<le> width item \<and> 1 \<le> height item \<longrightarrow>
             (\<forall>i j. placeable grid arr item j i = validOrigin grid arr item j i)"
    using validOrigin_origin_free[of item grid arr] by (auto simp: placeable_def)
  have scan: "(findPositionForItemInGrid grid layout item = Inr None
           \<and> (\<forall>i<rows grid. \<forall>j<columns grid. \<not> placeable grid arr item j i))
        \<or> (\<exists>i j. i < rows grid \<and> j < columns grid
              \<and> findPositionForItemInGrid grid layout item
                  = Inr (Some \<lparr>x = int j, y = int i\<rparr>)
              \<and> placeable grid arr item j i
              \<and> (\<forall>i' j'. i' < rows grid \<longrightarrow> j' < columns grid
                    \<longrightarrow> (i' < i \<or> (i' = i \<and> j' < j))
                    \<longrightarrow> \<not> placeable grid arr item j' i'))"
  proof (cases "find ?P [0..<rows grid]")
    case None
    from find_upt_None[THEN iffD1, OF None] have "\<forall>i<rows grid. \<not> ?P i" .
    with none have "\<forall>i<rows grid. \<forall>j<columns grid. \<not> placeable grid arr item j i"
      by blast
    with f None show ?thesis by simp
  next
    case (Some i)
    from find_upt_Some[THEN iffD1, OF Some] have i: "i < rows grid" "?P i" "\<forall>m<i. \<not> ?P m"
      by blast+
    from i(2) obtain j where "find (acceptable grid arr item i) [0..<rlength (arr ! i)] = Some j"
      by blast
    with i(1) have fj: "find (acceptable grid arr item i) [0..<columns grid] = Some j"
      by (simp add: row)
    from find_upt_Some[THEN iffD1, OF fj] have j: "j < columns grid" "acceptable grid arr item i j"
      "\<forall>m<j. \<not> acceptable grid arr item i m"
      by blast+
    from f Some fj i(1) have res: "findPositionForItemInGrid grid layout item
        = Inr (Some \<lparr>x = int j, y = int i\<rparr>)"
      by (simp add: row)
    from j(2) i(1) j(1) have valid: "placeable grid arr item j i" by (simp add: av)
    have before: "\<not> placeable grid arr item j' i'"
      if "i' < rows grid" "j' < columns grid" "i' < i \<or> (i' = i \<and> j' < j)" for i' j'
    proof (cases "i' < i")
      case True
      with i(3) have "\<not> ?P i'" by blast
      with none[OF that(1)] that(2) show ?thesis by blast
    next
      case False
      with that(3) have "i' = i" "j' < j" by auto
      with j(3) have "\<not> acceptable grid arr item i' j'" by blast
      with that(1,2) show ?thesis by (simp add: av)
    qed
    from i(1) j(1) res valid before show ?thesis by auto
  qed
  from scan sizes Inr show ?thesis by simp
qed

theorem findPosition_first_fit_witness:
  "findPositionForItemInGrid grid3 [mkItem 0 0 2 2] (mkItem 0 0 1 1)
        = Inr (Some \<lparr>x = 2, y = 0\<rparr>)
   \<and> (\<exists>arr. layoutTo2DArray grid3 [mkItem 0 0 2 2] False = Inr arr
         \<and> validOrigin grid3 arr (mkItem 0 0 1 1) 2 0
         \<and> \<not> validOrigin grid3 arr (mkItem 0 0 1 1) 0 0
         \<and> \<not> validOrigin grid3 arr (mkItem 0 0 1 1) 1 0)"
proof -
  have h: "1 \<le> width (mkItem 0 0 1 1) \<and> 1 \<le> height (mkItem 0 0 1 1)"
    by (simp add: mkItem_def)
  have f: "findPositionForItemInGrid grid3 [mkItem 0 0 2 2] (mkItem 0 0 1 1)
             = Inr (Some \<lparr>x = 2, y = 0\<rparr>)"
    by code_simp
  obtain arr where a: "layoutTo2DArray grid3 [mkItem 0 0 2 2] False = Inr arr"
    by (simp add: grid3_def mkItem_def eval_simps)
  from findPosition_first_fit[of grid3 "[mkItem 0 0 2 2]" "mkItem 0 0 1 1"] a f h
  obtain i j where ij: "\<lparr>x = 2, y = 0\<rparr> = \<lparr>x = int j, y = int i\<rparr>"
    and v: "placeable grid3 arr (mkItem 0 0 1 1) j i"
    and b: "\<forall>i' j'. i' < rows grid3 \<longrightarrow> j' < columns grid3
               \<longrightarrow> (i' < i \<or> (i' = i \<and> j' < j))
               \<longrightarrow> \<not> placeable grid3 arr (mkItem 0 0 1 1) j' i'"
    and pv: "\<forall>i j. placeable grid3 arr (mkItem 0 0 1 1) j i
                     = validOrigin grid3 arr (mkItem 0 0 1 1) j i"
    by auto
  from ij have "j = 2" "i = 0" by simp_all
  have g: "(0::nat) < rows grid3" "(0::nat) < columns grid3" "(1::nat) < columns grid3"
    by (simp_all add: grid3_def)
  from b[rule_format, of 0 0] b[rule_format, of 0 1] v g \<open>j = 2\<close> \<open>i = 0\<close> pv
  have "validOrigin grid3 arr (mkItem 0 0 1 1) 2 0"
    "\<not> validOrigin grid3 arr (mkItem 0 0 1 1) 0 0"
    "\<not> validOrigin grid3 arr (mkItem 0 0 1 1) 1 0"
    by simp_all
  with a f show ?thesis by blast
qed

text \<open>
  The claim as it stands fails for an item without cells. In the 3x3 grid with a 2x2
  item at the origin, the 0x0 item is within the grid and meets no occupied cell at
  column 0 of row 0, yet the search skips the occupied origins and returns column 2.
\<close>

theorem findPosition_zero_size_counterexample:
  "layoutTo2DArray grid3 [mkItem 0 0 2 2] False
      = Inr [setTrue (setTrue (newRow 3) 0) 1, setTrue (setTrue (newRow 3) 0) 1, newRow 3]
   \<and> validOrigin grid3
        [setTrue (setTrue (newRow 3) 0) 1, setTrue (setTrue (newRow 3) 0) 1, newRow 3]
        (mkItem 0 0 0 0) 0 0
   \<and> findPositionForItemInGrid grid3 [mkItem 0 0 2 2] (mkItem 0 0 0 0)
      = Inr (Some \<lparr>x = 2, y = 0\<rparr>)"
proof -
  have "findPositionForItemInGrid grid3 [mkItem 0 0 2 2] (mkItem 0 0 0 0)
      = Inr (Some \<lparr>x = 2, y = 0\<rparr>)"
    by code_simp
  moreover have "layoutTo2DArray grid3 [mkItem 0 0 2 2] False
      = Inr [setTrue (setTrue (newRow 3) 0) 1, setTrue (setTrue (newRow 3) 0) 1, newRow 3]"
    by (simp add: grid3_def mkItem_def eval_simps eval_nat_numeral)
  moreover have "validOrigin grid3
        [setTrue (setTrue (newRow 3) 0) 1, setTrue (setTrue (newRow 3) 0) 1, newRow 3]
        (mkItem 0 0 0 0) 0 0"
    by (simp add: validOrigin_def grid3_def mkItem_def layoutItemToSectors_def)
  ultimately show ?thesis by blast
qed

section \<open>Overflow repair\<close>

lemma entries_filterOthers:
  assumes "filterOthers h a item = (h1, a1)"
  shows "entries h1 a1 = filter (\<lambda>e. fst e \<noteq> item) (entries h a)"
    and "objects h1 = objects h" and "a1 = length (arrays h)"
    and "length (arrays h1) = Suc (length (arrays h))"
    and "\<And>b. b < length (arrays h) \<Longrightarrow> arrays h1 ! b = arrays h ! b"
  using assms by (auto simp: filterOthers_def entries_def filter_map comp_def nth_append)

lemma validStore_filterOthers:
  assumes "filterOthers h nl item = (h1, nl1)" and "validStore h layout nl"
  shows "validStore h1 layout nl1"
  using assms by (auto simp: filterOthers_def validStore_def nth_append)

lemma pushNew_props:
  assumes "validStore h layout nl"
  shows "validStore (pushNew h nl v) layout nl"
    and "entries (pushNew h nl v) nl = entries h nl @ [(length (objects h), v)]"
    and "entries (pushNew h nl v) layout = entries h layout"
    and "arrays (pushNew h nl v) ! layout = arrays h ! layout"
    and "length (objects (pushNew h nl v)) = Suc (length (objects h))"
    and "length (arrays (pushNew h nl v)) = length (arrays h)"
    and "\<And>b. b \<noteq> nl \<Longrightarrow> arrays (pushNew h nl v) ! b = arrays h ! b"
    and "take (length (objects h)) (objects (pushNew h nl v)) = objects h"
  using assms
  by (auto simp: pushNew_def validStore_def entries_def nth_append less_Suc_eq)


lemma drop_entries:
  assumes "k < length (arrays h ! layout)"
  shows "drop k (entries h layout)
           = (arrays h ! layout ! k, objects h ! (arrays h ! layout ! k))
               # drop (Suc k) (entries h layout)"
  using assms by (simp add: entries_def Cons_nth_drop_Suc[symmetric])

lemma unchanged_refl: "unchanged h h"
  by (simp add: unchanged_def)

lemma unchanged_trans:
  assumes "unchanged h h1" and "unchanged h1 h2"
  shows "unchanged h h2"
proof -
  from assms have l: "length (arrays h) \<le> length (arrays h1)"
    "length (arrays h1) \<le> length (arrays h2)"
    and a: "\<forall>a<length (arrays h). arrays h1 ! a = arrays h ! a"
    "\<forall>a<length (arrays h1). arrays h2 ! a = arrays h1 ! a"
    and o: "take (length (objects h)) (objects h1) = objects h"
    "take (length (objects h1)) (objects h2) = objects h1"
    by (simp_all add: unchanged_def)
  from o(1) have "length (take (length (objects h)) (objects h1)) = length (objects h)"
    by simp
  then have lo: "length (objects h) \<le> length (objects h1)" by simp
  have "take (length (objects h)) (objects h2)
      = take (length (objects h)) (take (length (objects h1)) (objects h2))"
    using lo by (simp add: min_def)
  also have "\<dots> = objects h" unfolding o(2) by (rule o(1))
  finally have "take (length (objects h)) (objects h2) = objects h" .
  moreover from l a have "\<forall>a<length (arrays h). arrays h2 ! a = arrays h ! a" by auto
  ultimately show ?thesis using l by (simp add: unchanged_def)
qed

lemma unchanged_filterOthers:
  "filterOthers h a item = (h1, a1) \<Longrightarrow> unchanged h h1"
  by (auto simp: filterOthers_def unchanged_def nth_append)

lemma fixLoop_refines:
  assumes "validStore h layout nl" and "k \<le> length (arrays h ! layout)"
  shows "\<exists>res. fixLoop grid h layout nl k = Some res
           \<and> (\<forall>e h'. res = Inl (e, h') \<longrightarrow>
                 repairLoop grid (length (objects h)) (entries h nl) (drop k (entries h layout))
                   = Inl e
                 \<and> unchanged h h')
           \<and> (\<forall>h' out. res = Inr (h', out) \<longrightarrow>
                 repairLoop grid (length (objects h)) (entries h nl) (drop k (entries h layout))
                   = Inr (entries h' out)
                 \<and> unchanged h h'
                 \<and> validStore h' layout out \<and> nl \<le> out)"
  using assms
proof (induction "length (arrays h ! layout) - k" arbitrary: h nl k)
  case 0
  then have "k = length (arrays h ! layout)" by simp
  with 0 show ?case
    by (subst fixLoop.simps) (simp add: entries_def unchanged_refl)
next
  case (Suc m)
  then have k: "k < length (arrays h ! layout)" by simp
  let ?item = "arrays h ! layout ! k"
  let ?v = "objects h ! ?item"
  note d = drop_entries[OF k]
  show ?case
  proof (cases "overflows grid ?v")
    case False
    from Suc.hyps(2) k have m: "m = length (arrays h ! layout) - Suc k" by simp
    from Suc.hyps(1)[OF m Suc.prems(1)] k
    obtain res where res: "fixLoop grid h layout nl (Suc k) = Some res"
      and e: "\<forall>e h'. res = Inl (e, h') \<longrightarrow>
                 repairLoop grid (length (objects h)) (entries h nl)
                   (drop (Suc k) (entries h layout)) = Inl e
                 \<and> unchanged h h'"
      and r: "\<forall>h' out. res = Inr (h', out) \<longrightarrow>
                 repairLoop grid (length (objects h)) (entries h nl)
                   (drop (Suc k) (entries h layout)) = Inr (entries h' out)
                 \<and> unchanged h h'
                 \<and> validStore h' layout out \<and> nl \<le> out"
      by auto
    from res k False have "fixLoop grid h layout nl k = Some res"
      by (subst fixLoop.simps) simp
    with e r False show ?thesis unfolding d by simp
  next
    case True
    obtain h1 nl1 where f: "filterOthers h nl ?item = (h1, nl1)" by force
    note f1 = entries_filterOthers[OF f]
    note u1 = unchanged_filterOthers[OF f]
    from validStore_filterOthers[OF f Suc.prems(1)] have v1: "validStore h1 layout nl1" .
    from Suc.prems(1) have lay: "layout < length (arrays h)" and nl: "nl < length (arrays h)"
      by (simp_all add: validStore_def)
    from nl f1(3) have nl1: "nl \<le> nl1" by simp
    with f1(5) lay have L1: "arrays h1 ! layout = arrays h ! layout" by simp
    with f1(2) have E1: "entries h1 layout = entries h layout" by (simp add: entries_def)
    have items1: "itemsOf h1 nl1 = map snd (filter (\<lambda>e. fst e \<noteq> ?item) (entries h nl))"
      unfolding f1(1)[symmetric] by (simp add: itemsOf_def entries_def comp_def)
    from Suc.hyps(2) k L1 have m1: "m = length (arrays h1 ! layout) - Suc k" by simp
    from k L1 have k1: "Suc k \<le> length (arrays h1 ! layout)" by simp
    let ?find = "findPositionForItemInGrid grid (itemsOf h1 nl1) ?v"
    let ?spec = "repairLoop grid (length (objects h)) (entries h nl) (drop k (entries h layout))"
    have unfold: "fixLoop grid h layout nl k =
        (case ?find of
           Inl e \<Rightarrow> Some (Inl (e, h1))
         | Inr None \<Rightarrow> fixLoop grid h1 layout nl1 (Suc k)
         | Inr (Some pos) \<Rightarrow>
             fixLoop grid (pushNew h1 nl1 (?v\<lparr>x := x pos, y := y pos\<rparr>)) layout nl1 (Suc k))"
      using k True f f1(2)
      by (subst fixLoop.simps) (simp add: Let_def split: sum.splits option.splits)
    have spec: "?spec =
        (case ?find of
           Inl e \<Rightarrow> Inl e
         | Inr None \<Rightarrow> repairLoop grid (length (objects h1)) (entries h1 nl1)
                         (drop (Suc k) (entries h1 layout))
         | Inr (Some pos) \<Rightarrow>
             repairLoop grid (Suc (length (objects h1)))
               (entries h1 nl1 @ [(length (objects h1), ?v\<lparr>x := x pos, y := y pos\<rparr>)])
               (drop (Suc k) (entries h1 layout)))"
      unfolding d using True
      by (simp add: items1 f1(1,2) E1 Let_def split: sum.splits option.splits)
    have step: ?thesis
      if run: "fixLoop grid h layout nl k = fixLoop grid h2 layout nl1 (Suc k)"
        and sp: "?spec = repairLoop grid (length (objects h2)) (entries h2 nl1)
                            (drop (Suc k) (entries h2 layout))"
        and v2: "validStore h2 layout nl1" and u2: "unchanged h h2"
        and L2: "arrays h2 ! layout = arrays h ! layout"
      for h2
    proof -
      from Suc.hyps(2) k L2 have m2: "m = length (arrays h2 ! layout) - Suc k" by simp
      from k L2 have k2: "Suc k \<le> length (arrays h2 ! layout)" by simp
      from Suc.hyps(1)[OF m2 v2 k2]
      obtain res where res: "fixLoop grid h2 layout nl1 (Suc k) = Some res"
        and e: "\<forall>e h'. res = Inl (e, h') \<longrightarrow>
                 repairLoop grid (length (objects h2)) (entries h2 nl1)
                   (drop (Suc k) (entries h2 layout)) = Inl e
                 \<and> unchanged h2 h'"
        and r: "\<forall>h' out. res = Inr (h', out) \<longrightarrow>
                 repairLoop grid (length (objects h2)) (entries h2 nl1)
                   (drop (Suc k) (entries h2 layout)) = Inr (entries h' out)
                 \<and> unchanged h2 h'
                 \<and> validStore h' layout out \<and> nl1 \<le> out"
        by auto
      have "?spec = Inl err \<and> unchanged h h'" if "res = Inl (err, h')" for err h'
        using that e sp unchanged_trans[OF u2] by simp
      moreover have "?spec = Inr (entries h' out) \<and> unchanged h h'
                 \<and> validStore h' layout out \<and> nl \<le> out"
        if "res = Inr (h', out)" for h' out
        using that r sp unchanged_trans[OF u2] nl1 by auto
      ultimately show ?thesis using run res by auto
    qed
    show ?thesis
    proof (cases ?find)
      case (Inl e)
      with unfold spec u1 show ?thesis by simp
    next
      case (Inr found)
      show ?thesis
      proof (cases found)
        case None
        from unfold Inr None have "fixLoop grid h layout nl k = fixLoop grid h1 layout nl1 (Suc k)"
          by simp
        moreover from spec Inr None
        have "?spec = repairLoop grid (length (objects h1)) (entries h1 nl1)
                (drop (Suc k) (entries h1 layout))" by simp
        ultimately show ?thesis using v1 u1 L1 by (rule step)
      next
        case (Some pos)
        let ?h2 = "pushNew h1 nl1 (?v\<lparr>x := x pos, y := y pos\<rparr>)"
        note p = pushNew_props[OF v1, where v = "?v\<lparr>x := x pos, y := y pos\<rparr>"]
        from unfold Inr Some have 1: "fixLoop grid h layout nl k = fixLoop grid ?h2 layout nl1 (Suc k)"
          by simp
        from spec Inr Some
        have 2: "?spec = repairLoop grid (length (objects ?h2)) (entries ?h2 nl1)
                (drop (Suc k) (entries ?h2 layout))"
          by (simp add: p(2,3,5))
        have "arrays ?h2 ! a = arrays h ! a" if "a < length (arrays h)" for a
          using that p(7)[of a] f1(3,5) by simp
        with p(6,8) f1(2,4) have 3: "unchanged h ?h2"
          by (simp add: unchanged_def)
        from p(4) L1 have 4: "arrays ?h2 ! layout = arrays h ! layout" by simp
        from 1 2 p(1) 3 4 show ?thesis by (rule step)
      qed
    qed
  qed
qed

lemma findPosition_fits:
  assumes "findPositionForItemInGrid grid layout item = Inr (Some p)"
  shows "\<not> overflows grid (item\<lparr>x := x p, y := y p\<rparr>)"
proof -
  from assms obtain arr where "scanRows grid arr item [0..<length arr] = Inr (Some p)"
    by (auto simp: findPositionForItemInGrid_def split: sum.splits)
  from scanRows_Some[OF this] show ?thesis by (auto simp: overflows_def)
qed

lemma repairLoop_structure:
  assumes "repairLoop grid n working todo = Inr w" and "\<forall>e \<in> set todo. fst e < n"
  shows "\<exists>news. w = filter (\<lambda>e. fst e \<notin> fst ` {e \<in> set todo. overflows grid (snd e)}) working
                      @ news
           \<and> (\<forall>e \<in> set news. n \<le> fst e \<and> (\<exists>e0 \<in> set todo. copyOf grid (snd e) (snd e0)))"
  using assms
proof (induction todo arbitrary: n working)
  case Nil
  then show ?case by simp
next
  case (Cons a todo)
  obtain k item where a: "a = (k, item)" by (cases a)
  let ?K = "\<lambda>t. fst ` {e \<in> set t. overflows grid (snd e)}"
  from Cons.prems(2) have lt: "\<forall>e \<in> set todo. fst e < n" by simp
  show ?case
  proof (cases "overflows grid item")
    case False
    with Cons.prems(1) a have "repairLoop grid n working todo = Inr w" by simp
    from Cons.IH[OF this lt] obtain news where
      "w = filter (\<lambda>e. fst e \<notin> ?K todo) working @ news"
      "\<forall>e \<in> set news. n \<le> fst e \<and> (\<exists>e0 \<in> set todo. copyOf grid (snd e) (snd e0))"
      by blast
    moreover from False a have "?K (a # todo) = ?K todo" by auto
    ultimately show ?thesis by auto
  next
    case True
    let ?w' = "filter (\<lambda>e. fst e \<noteq> k) working"
    from True a have K: "?K (a # todo) = insert k (?K todo)" by force
    have ff: "filter (\<lambda>e. fst e \<notin> ?K todo) ?w'
        = filter (\<lambda>e. fst e \<notin> ?K (a # todo)) working"
      unfolding K by (simp add: conj_commute)
    show ?thesis
    proof (cases "findPositionForItemInGrid grid (map snd ?w') item")
      case (Inl e)
      with Cons.prems(1) a True show ?thesis by simp
    next
      case (Inr found)
      show ?thesis
      proof (cases found)
        case None
        with Inr Cons.prems(1) a True have "repairLoop grid n ?w' todo = Inr w"
          by simp
        from Cons.IH[OF this lt] obtain news where
          "w = filter (\<lambda>e. fst e \<notin> ?K todo) ?w' @ news"
          "\<forall>e \<in> set news. n \<le> fst e \<and> (\<exists>e0 \<in> set todo. copyOf grid (snd e) (snd e0))"
          by blast
        then show ?thesis unfolding ff by auto
      next
        case (Some p)
        let ?new = "(n, item\<lparr>x := x p, y := y p\<rparr>)"
        from Some Inr Cons.prems(1) a True
        have run: "repairLoop grid (Suc n) (?w' @ [?new]) todo = Inr w" by simp
        from lt have lt': "\<forall>e \<in> set todo. fst e < Suc n" by auto
        from Cons.IH[OF run lt'] obtain news where
          w: "w = filter (\<lambda>e. fst e \<notin> ?K todo) (?w' @ [?new]) @ news"
          and n: "\<forall>e \<in> set news. Suc n \<le> fst e
                    \<and> (\<exists>e0 \<in> set todo. copyOf grid (snd e) (snd e0))"
          by blast
        from lt have "n \<notin> ?K todo" by auto
        with w have w': "w = filter (\<lambda>e. fst e \<notin> ?K (a # todo)) working @ (?new # news)"
          unfolding ff[symmetric] by simp
        from findPosition_fits[OF Inr[unfolded Some]] True a
        have "copyOf grid (snd ?new) (snd a)" by (simp add: copyOf_def)
        with n have "\<forall>e \<in> set (?new # news). n \<le> fst e
                    \<and> (\<exists>e0 \<in> set (a # todo). copyOf grid (snd e) (snd e0))"
          by auto
        with w' show ?thesis by blast
      qed
    qed
  qed
qed

lemma repairOverflow_structure:
  assumes "repairOverflow grid n (entries h layout) = Inr w"
    and "\<forall>r \<in> set (arrays h ! layout). r < n"
  shows "\<exists>news. w = filter (\<lambda>e. \<not> overflows grid (snd e)) (entries h layout) @ news
           \<and> (\<forall>e \<in> set news. n \<le> fst e
                \<and> (\<exists>r0 \<in> set (arrays h ! layout). copyOf grid (snd e) (objects h ! r0)))"
proof -
  let ?E = "entries h layout"
  have lt: "\<forall>e \<in> set ?E. fst e < n" using assms(2) by (auto simp: entries_def)
  from repairLoop_structure[OF assms(1)[unfolded repairOverflow_def] lt]
  obtain news where w: "w = filter (\<lambda>e. fst e \<notin> fst ` {e \<in> set ?E. overflows grid (snd e)}) ?E
                      @ news"
    and n: "\<forall>e \<in> set news. n \<le> fst e \<and> (\<exists>e0 \<in> set ?E. copyOf grid (snd e) (snd e0))"
    by blast
  have "filter (\<lambda>e. fst e \<notin> fst ` {e \<in> set ?E. overflows grid (snd e)}) ?E
      = filter (\<lambda>e. \<not> overflows grid (snd e)) ?E"
    by (rule filter_cong) (auto simp: entries_def image_iff)
  with w n show ?thesis by (fastforce simp: entries_def)
qed


lemma spreadArray_props:
  assumes "spreadArray h layout = (h0, nl0)" and "layout < length (arrays h)"
  shows "objects h0 = objects h" and "nl0 = length (arrays h)"
    and "arrays h0 ! layout = arrays h ! layout" and "arrays h0 ! nl0 = arrays h ! layout"
    and "length (arrays h0) = Suc (length (arrays h))"
    and "\<And>a. a < length (arrays h) \<Longrightarrow> arrays h0 ! a = arrays h ! a"
    and "entries h0 layout = entries h layout" and "entries h0 nl0 = entries h layout"
  using assms by (auto simp: spreadArray_def entries_def nth_append)

text \<open>
  C3. Let \<open>layout\<close> be an array of the store whose elements are objects of the store.
  Then \<open>fixHorizontalOverflows\<close> ends, and its result is the one of the repair that
  the specification words (\<open>repairOverflow\<close>: the items in the original order, each
  overflowing one removed from the working copy, searched against the current working
  copy, and put at its end with the new coordinates when a slot is found), an error of
  the occupancy construction included. Whether it returns or throws, no array of the
  given store has changed (the input layout among them) and no object of the given
  store has changed. When it returns the array \<open>out\<close> in the store \<open>h'\<close>, \<open>out\<close> is a
  new array; it holds the non-overflowing items of the input, the same objects in the
  same order, followed by new objects, each of which is within the grid and has the
  size and payload of an overflowing item of the input.
\<close>

theorem fixHorizontalOverflows_policy:
  assumes "layout < length (arrays h)"
    and "\<forall>r \<in> set (arrays h ! layout). r < length (objects h)"
  shows "\<exists>res. fixHorizontalOverflows grid h layout = Some res
           \<and> (\<forall>e h'. res = Inl (e, h') \<longrightarrow>
                 repairOverflow grid (length (objects h)) (entries h layout) = Inl e
                 \<and> unchanged h h')
           \<and> (\<forall>h' out. res = Inr (h', out) \<longrightarrow>
                 repairOverflow grid (length (objects h)) (entries h layout)
                   = Inr (entries h' out)
                 \<and> unchanged h h'
                 \<and> length (arrays h) \<le> out
                 \<and> (\<exists>news. arrays h' ! out
                        = filter (\<lambda>r. \<not> overflows grid (objects h ! r)) (arrays h ! layout) @ news
                      \<and> (\<forall>r \<in> set news. length (objects h) \<le> r
                            \<and> (\<exists>r0 \<in> set (arrays h ! layout).
                                  copyOf grid (objects h' ! r) (objects h ! r0)))))"
proof -
  obtain h0 nl0 where sp: "spreadArray h layout = (h0, nl0)" by force
  note s = spreadArray_props[OF sp assms(1)]
  have v0: "validStore h0 layout nl0"
    using assms s(1,3,4,5) by (simp add: validStore_def s(2))
  have u0: "unchanged h h0"
    using s(1,5,6) by (simp add: unchanged_def)
  have run: "fixHorizontalOverflows grid h layout = fixLoop grid h0 layout nl0 0"
    by (simp add: fixHorizontalOverflows_def sp)
  from fixLoop_refines[OF v0, of 0 grid]
  obtain res where res: "fixLoop grid h0 layout nl0 0 = Some res"
    and e: "\<forall>e h'. res = Inl (e, h') \<longrightarrow>
              repairLoop grid (length (objects h0)) (entries h0 nl0) (drop 0 (entries h0 layout))
                = Inl e
              \<and> unchanged h0 h'"
    and r: "\<forall>h' out. res = Inr (h', out) \<longrightarrow>
              repairLoop grid (length (objects h0)) (entries h0 nl0) (drop 0 (entries h0 layout))
                = Inr (entries h' out)
              \<and> unchanged h0 h'
              \<and> validStore h' layout out \<and> nl0 \<le> out"
    by auto
  have spec: "repairLoop grid (length (objects h0)) (entries h0 nl0) (drop 0 (entries h0 layout))
      = repairOverflow grid (length (objects h)) (entries h layout)"
    by (simp add: repairOverflow_def s(1,7,8))
  have good: "repairOverflow grid (length (objects h)) (entries h layout) = Inr (entries h' out)
                 \<and> unchanged h h'
                 \<and> length (arrays h) \<le> out
                 \<and> (\<exists>news. arrays h' ! out
                        = filter (\<lambda>r. \<not> overflows grid (objects h ! r)) (arrays h ! layout) @ news
                      \<and> (\<forall>r \<in> set news. length (objects h) \<le> r
                            \<and> (\<exists>r0 \<in> set (arrays h ! layout).
                                  copyOf grid (objects h' ! r) (objects h ! r0))))"
    if eq: "res = Inr (h', out)" for h' out
  proof -
    from r eq spec
    have a: "repairOverflow grid (length (objects h)) (entries h layout) = Inr (entries h' out)"
      and c: "unchanged h0 h'" and o: "nl0 \<le> out"
      by auto
    from u0 c have c': "unchanged h h'" by (rule unchanged_trans)
    from repairOverflow_structure[OF a assms(2)] obtain news where
      w: "entries h' out = filter (\<lambda>e. \<not> overflows grid (snd e)) (entries h layout) @ news"
      and n: "\<forall>e \<in> set news. length (objects h) \<le> fst e
                \<and> (\<exists>r0 \<in> set (arrays h ! layout). copyOf grid (snd e) (objects h ! r0))"
      by blast
    have "arrays h' ! out = map fst (entries h' out)"
      by (simp add: entries_def comp_def)
    also have "\<dots> = filter (\<lambda>r. \<not> overflows grid (objects h ! r)) (arrays h ! layout)
                      @ map fst news"
      unfolding w by (simp add: entries_def filter_map comp_def)
    finally have out: "arrays h' ! out
        = filter (\<lambda>r. \<not> overflows grid (objects h ! r)) (arrays h ! layout) @ map fst news" .
    have "length (objects h) \<le> r
            \<and> (\<exists>r0 \<in> set (arrays h ! layout). copyOf grid (objects h' ! r) (objects h ! r0))"
      if "r \<in> set (map fst news)" for r
    proof -
      from that obtain v where rv: "(r, v) \<in> set news" by auto
      with w have "(r, v) \<in> set (entries h' out)" by simp
      then have "v = objects h' ! r" by (auto simp: entries_def)
      with n rv show ?thesis by fastforce
    qed
    with out a c' o show ?thesis by (auto simp: s(2))
  qed
  have bad: "repairOverflow grid (length (objects h)) (entries h layout) = Inl err
               \<and> unchanged h h'"
    if "res = Inl (err, h')" for err h'
    using that e spec unchanged_trans[OF u0] by simp
  show ?thesis
  proof (intro exI[of _ res] conjI)
    show "fixHorizontalOverflows grid h layout = Some res" using run res by simp
  qed (intro allI impI, rule bad, assumption, intro allI impI, rule good)
qed

theorem fixHorizontalOverflows_policy_witness:
  "length (arrays store1) = 1 \<and> arrays store1 ! 0 = [0, 1] \<and> length (objects store1) = 2
   \<and> fixHorizontalOverflows grid3 store1 0
       = Some (Inr (\<lparr>objects = [mkItem 0 0 2 2, mkItem 3 3 1 1, mkItem 2 0 1 1],
                      arrays = [[0, 1], [0, 1], [0, 2]]\<rparr>, 2))
   \<and> repairOverflow grid3 2 (entries store1 0)
       = Inr [(0, mkItem 0 0 2 2), (2, mkItem 2 0 1 1)]
   \<and> fixHorizontalOverflows grid2 store2 0
       = Some (Inr (\<lparr>objects = [mkItem 0 0 2 2, mkItem 1 1 2 2],
                      arrays = [[0, 1], [0, 1], [0]]\<rparr>, 2))"
proof -
  have drop: "fixHorizontalOverflows grid2 store2 0
       = Some (Inr (\<lparr>objects = [mkItem 0 0 2 2, mkItem 1 1 2 2],
                      arrays = [[0, 1], [0, 1], [0]]\<rparr>, 2))"
    by code_simp
  let ?H = "\<lparr>objects = [mkItem 0 0 2 2, mkItem 3 3 1 1, mkItem 2 0 1 1],
             arrays = [[0, 1], [0, 1], [0, 2]]\<rparr> :: unit store"
  have h: "0 < length (arrays store1)"
    "\<forall>r \<in> set (arrays store1 ! 0). r < length (objects store1)"
    by (simp_all add: store1_def)
  have run: "fixHorizontalOverflows grid3 store1 0 = Some (Inr (?H, 2))"
    by code_simp
  from fixHorizontalOverflows_policy[OF h, of grid3] run
  have "repairOverflow grid3 (length (objects store1)) (entries store1 0) = Inr (entries ?H 2)"
    by auto
  moreover have "entries ?H 2 = [(0, mkItem 0 0 2 2), (2, mkItem 2 0 1 1)]"
    by (simp add: entries_def)
  moreover have "length (arrays store1) = 1 \<and> arrays store1 ! 0 = [0, 1]
      \<and> length (objects store1) = 2"
    by (simp add: store1_def)
  ultimately show ?thesis using run drop by simp
qed

section \<open>Repair of a layout without overflow\<close>

lemma fixLoop_no_overflow:
  assumes "\<forall>r \<in> set (arrays h ! layout). \<not> overflows grid (objects h ! r)"
  shows "fixLoop grid h layout nl k = Some (Inr (h, nl))"
  using assms
proof (induction "length (arrays h ! layout) - k" arbitrary: k)
  case 0
  then show ?case by (subst fixLoop.simps) simp
next
  case (Suc m)
  then have k: "k < length (arrays h ! layout)" by simp
  with Suc.prems have "\<not> overflows grid (objects h ! (arrays h ! layout ! k))" by simp
  moreover from Suc.hyps(2) have "m = length (arrays h ! layout) - Suc k" by simp
  from Suc.hyps(1)[OF this Suc.prems]
  have "fixLoop grid h layout nl (Suc k) = Some (Inr (h, nl))" .
  ultimately show ?case using k by (subst fixLoop.simps) simp
qed

text \<open>
  C8. When no item of the layout overflows the grid, \<open>fixHorizontalOverflows\<close> returns
  a layout equal to the input: a new array that holds the same objects in the same
  order, hence the same items by value, in a store whose objects are unchanged.
\<close>

theorem fixHorizontalOverflows_no_overflow:
  assumes "layout < length (arrays h)"
    and "\<forall>r \<in> set (arrays h ! layout). \<not> overflows grid (objects h ! r)"
  shows "\<exists>h' out. fixHorizontalOverflows grid h layout = Some (Inr (h', out))
           \<and> itemsOf h' out = itemsOf h layout
           \<and> arrays h' ! out = arrays h ! layout
           \<and> arrays h' ! layout = arrays h ! layout
           \<and> objects h' = objects h
           \<and> out \<noteq> layout"
proof -
  obtain h0 nl0 where sp: "spreadArray h layout = (h0, nl0)" by force
  note s = spreadArray_props[OF sp assms(1)]
  from assms(2) s(1,3)
  have "\<forall>r \<in> set (arrays h0 ! layout). \<not> overflows grid (objects h0 ! r)" by simp
  from fixLoop_no_overflow[OF this]
  have "fixHorizontalOverflows grid h layout = Some (Inr (h0, nl0))"
    by (simp add: fixHorizontalOverflows_def sp)
  moreover have "itemsOf h0 nl0 = itemsOf h layout"
    by (simp add: itemsOf_def s(1,4))
  moreover from assms(1) s(2) have "nl0 \<noteq> layout" by simp
  ultimately show ?thesis using s(1,3,4) by blast
qed

theorem fixHorizontalOverflows_no_overflow_witness:
  "length (arrays store1) = 1
   \<and> \<not> overflows grid4 (objects store1 ! 0) \<and> \<not> overflows grid4 (objects store1 ! 1)
   \<and> (\<exists>h' out. fixHorizontalOverflows grid4 store1 0 = Some (Inr (h', out))
          \<and> itemsOf h' out = [mkItem 0 0 2 2, mkItem 3 3 1 1])"
proof -
  have h: "0 < length (arrays store1)"
    "\<forall>r \<in> set (arrays store1 ! 0). \<not> overflows grid4 (objects store1 ! r)"
    by (simp_all add: store1_def overflows_def grid4_def mkItem_def)
  have "itemsOf store1 0 = [mkItem 0 0 2 2, mkItem 3 3 1 1]"
    by (simp add: itemsOf_def store1_def)
  with fixHorizontalOverflows_no_overflow[OF h]
  have "\<exists>h' out. fixHorizontalOverflows grid4 store1 0 = Some (Inr (h', out))
          \<and> itemsOf h' out = [mkItem 0 0 2 2, mkItem 3 3 1 1]"
    by auto
  moreover have "length (arrays store1) = 1
      \<and> \<not> overflows grid4 (objects store1 ! 0) \<and> \<not> overflows grid4 (objects store1 ! 1)"
    by (simp add: store1_def overflows_def grid4_def mkItem_def)
  ultimately show ?thesis by blast
qed

end
